theory Spec2Isabelle
  imports Complex_Main
begin

section \<open>Text, numbers and errors\<close>

text \<open>
  A Python \<open>str\<close> is a sequence of code points. The model uses \<open>string\<close> and reads every
  \<open>char\<close> as one code point below 256 (the Latin-1 range), which holds every character the
  patterns of \<open>answer_parser.py\<close> name, the degree sign U+00B0 included. On that range the
  character classes below are exactly the ones Python uses.

  Numbers are exact rationals. Where Python computes with binary64 floats (\<open>float(...)\<close>,
  \<open>count / total\<close>) the model keeps the exact value that Python rounds.
\<close>

datatype error = TypeError | ValueError

definition is_digit :: "char \<Rightarrow> bool" where
  "is_digit c = (48 \<le> (of_char c :: nat) \<and> (of_char c :: nat) \<le> 57)"

text \<open>The class \<open>[0-9.]\<close>.\<close>

definition is_numch :: "char \<Rightarrow> bool" where
  "is_numch c = (is_digit c \<or> c = CHR ''.'')"

text \<open>
  \<open>\s\<close> in a \<open>str\<close> pattern and the characters \<open>str.strip()\<close> removes: tab to carriage
  return, the separators U+001C to U+001F, space, U+0085 and U+00A0.
\<close>

definition is_space :: "char \<Rightarrow> bool" where
  "is_space c = (let n = (of_char c :: nat)
                 in (9 \<le> n \<and> n \<le> 13) \<or> (28 \<le> n \<and> n \<le> 32) \<or> n = 133 \<or> n = 160)"

definition is_letter :: "char \<Rightarrow> bool" where
  "is_letter c = (let n = (of_char c :: nat)
                  in (65 \<le> n \<and> n \<le> 90) \<or> (97 \<le> n \<and> n \<le> 122))"

text \<open>The class \<open>[a-zA-Z\<degree>/%]\<close>; the degree sign is code point 176.\<close>

definition is_unitch :: "char \<Rightarrow> bool" where
  "is_unitch c = (is_letter c \<or> (of_char c :: nat) = 176 \<or> c = CHR ''/'' \<or> c = CHR ''%'')"

text \<open>\<open>str.lower()\<close> on one code point below 256: A to Z, and U+00C0 to U+00DE without U+00D7.\<close>

definition lower_char :: "char \<Rightarrow> char" where
  "lower_char c = (let n = (of_char c :: nat)
                   in if (65 \<le> n \<and> n \<le> 90) \<or> (192 \<le> n \<and> n \<le> 222 \<and> n \<noteq> 215)
                      then char_of (n + 32) else c)"

definition lower :: "string \<Rightarrow> string" where
  "lower s = map lower_char s"

definition strip :: "string \<Rightarrow> string" where
  "strip s = rev (dropWhile is_space (rev (dropWhile is_space s)))"

subsection \<open>\<open>float(...)\<close> on a matched numeric span\<close>

definition digit_val :: "char \<Rightarrow> nat" where
  "digit_val c = of_char c - 48"

definition digits_val :: "string \<Rightarrow> nat" where
  "digits_val ds = foldl (\<lambda>a c. 10 * a + digit_val c) 0 ds"

text \<open>
  \<open>float(s)\<close> for a span \<open>s\<close> of the class \<open>[0-9.]\<close>, the only strings the parser passes to
  it: the span is a number when it has at least one digit and at most one dot, and
  \<open>float\<close> raises \<open>ValueError\<close> otherwise (\<open>None\<close> here).
\<close>

definition float_span :: "string \<Rightarrow> rat option" where
  "float_span s =
     (let ip = takeWhile is_digit s; r = dropWhile is_digit s
      in case r of
           [] \<Rightarrow> if ip = [] then None else Some (of_nat (digits_val ip))
         | c # fp \<Rightarrow>
             if c = CHR ''.'' \<and> list_all is_digit fp \<and> (ip \<noteq> [] \<or> fp \<noteq> [])
             then Some (of_nat (digits_val ip) + of_nat (digits_val fp) / 10 ^ length fp)
             else None)"

section \<open>The patterns of \<open>AnswerParser.parse_answer\<close>\<close>

text \<open>
  All four patterns end in \<open>([0-9.]+)\s*([a-zA-Z\<degree>/%]+)\<close>. The three classes are pairwise
  disjoint, so at a given position the greedy match is the only one: the longest run of
  \<open>[0-9.]\<close>, then all white space, then the longest run of unit characters. \<open>num_unit\<close>
  returns the two groups and the text left after the match.
\<close>

definition num_unit :: "string \<Rightarrow> ((string \<times> string) \<times> string) option" where
  "num_unit s =
     (let n = takeWhile is_numch s;
          r = dropWhile is_space (dropWhile is_numch s);
          u = takeWhile is_unitch r
      in if n \<noteq> [] \<and> u \<noteq> [] then Some ((n, u), dropWhile is_unitch r) else None)"

text \<open>
  A literal under \<open>re.IGNORECASE\<close>: a character of the text matches a character of the
  pattern when the two have the same lower case.
\<close>

fun lit_ci :: "string \<Rightarrow> string \<Rightarrow> string option" where
  "lit_ci [] s = Some s"
| "lit_ci (p # ps) [] = None"
| "lit_ci (p # ps) (c # cs) = (if lower_char c = lower_char p then lit_ci ps cs else None)"

text \<open>\<open>\s+\<close>: at least one white-space character, then all that follow.\<close>

definition spaces1 :: "string \<Rightarrow> string option" where
  "spaces1 s = (case s of [] \<Rightarrow> None
                | c # cs \<Rightarrow> if is_space c then Some (dropWhile is_space cs) else None)"

text \<open>Pattern 1 at a position: \<open>Answer:\s*([0-9.]+)\s*([a-zA-Z\<degree>/%]+)\<close>.\<close>

definition match1 :: "string \<Rightarrow> ((string \<times> string) \<times> string) option" where
  "match1 s = (case lit_ci ''Answer:'' s of None \<Rightarrow> None
               | Some r \<Rightarrow> num_unit (dropWhile is_space r))"

text \<open>
  Pattern 2 at a position: \<open>(?:Final\s+)?Reading:\s*([0-9.]+)\s*([a-zA-Z\<degree>/%]+)\<close>. The
  optional group is tried first; when the rest fails after it, the match is tried
  without it.
\<close>

definition reading :: "string \<Rightarrow> ((string \<times> string) \<times> string) option" where
  "reading s = (case lit_ci ''Reading:'' s of None \<Rightarrow> None
                | Some r \<Rightarrow> num_unit (dropWhile is_space r))"

definition match2 :: "string \<Rightarrow> ((string \<times> string) \<times> string) option" where
  "match2 s =
     (case (case lit_ci ''Final'' s of None \<Rightarrow> None
            | Some r \<Rightarrow> (case spaces1 r of None \<Rightarrow> None | Some r' \<Rightarrow> reading r')) of
        Some m \<Rightarrow> Some m
      | None \<Rightarrow> reading s)"

text \<open>
  Pattern 3 at a position:
  \<open>(?:approximately|around|about)\s+([0-9.]+)\s*([a-zA-Z\<degree>/%]+)\<close>, the alternatives in
  the order of the pattern.
\<close>

definition hedge :: "string \<Rightarrow> string \<Rightarrow> ((string \<times> string) \<times> string) option" where
  "hedge w s = (case lit_ci w s of None \<Rightarrow> None
                | Some r \<Rightarrow> (case spaces1 r of None \<Rightarrow> None | Some r' \<Rightarrow> num_unit r'))"

definition match3 :: "string \<Rightarrow> ((string \<times> string) \<times> string) option" where
  "match3 s =
     (case hedge ''approximately'' s of Some m \<Rightarrow> Some m
      | None \<Rightarrow> (case hedge ''around'' s of Some m \<Rightarrow> Some m
                 | None \<Rightarrow> hedge ''about'' s))"

text \<open>\<open>re.search\<close>: the match at the leftmost position that has one; its groups.\<close>

fun search :: "(string \<Rightarrow> ((string \<times> string) \<times> string) option) \<Rightarrow> string
               \<Rightarrow> (string \<times> string) option" where
  "search m [] = map_option fst (m [])"
| "search m (c # cs) = (case m (c # cs) of Some (g, rest) \<Rightarrow> Some g
                        | None \<Rightarrow> search m cs)"

text \<open>
  \<open>re.findall\<close> with pattern 4, \<open>([0-9.]+)\s*([a-zA-Z\<degree>/%]+)\<close>: the matches from left to
  right, not overlapping, each as the pair of its groups. After a match the scan goes on
  where the match ended; where there is none it moves one character on.
\<close>

function findall :: "string \<Rightarrow> (string \<times> string) list" where
  "findall [] = []"
| "findall (c # cs) = (case num_unit (c # cs) of
                         Some (g, rest) \<Rightarrow> g # findall rest
                       | None \<Rightarrow> findall cs)"
  by pat_completeness auto
termination
proof (relation "measure length")
  show "wf (measure length)" by simp
next
  fix c :: char and cs
  show "(cs, c # cs) \<in> measure length" by simp
next
  fix c :: char and cs x2 g rest
  assume m: "num_unit (c # cs) = Some x2" and x2: "(g, rest) = x2"
  let ?s = "c # cs"
  from m x2 have n: "takeWhile is_numch ?s \<noteq> []"
    and rest: "rest = dropWhile is_unitch (dropWhile is_space (dropWhile is_numch ?s))"
    by (auto simp: num_unit_def Let_def split: if_splits)
  from n have "is_numch c" by (auto split: if_splits)
  then have "dropWhile is_numch ?s = dropWhile is_numch cs" by simp
  then have "length rest \<le> length (dropWhile is_space (dropWhile is_numch cs))"
    unfolding rest by (simp add: length_dropWhile_le)
  also have "\<dots> \<le> length (dropWhile is_numch cs)" by (rule length_dropWhile_le)
  also have "\<dots> \<le> length cs" by (rule length_dropWhile_le)
  finally show "(rest, c # cs) \<in> measure length" by simp
qed

section \<open>\<open>AnswerParser.parse_answer\<close>\<close>

record answer =
  ans_value :: "rat option"
  ans_unit :: "string option"
  raw_answer :: "string option"

text \<open>The dictionary returned when no pattern matches.\<close>

definition no_answer :: answer where
  "no_answer = \<lparr>ans_value = None, ans_unit = None, raw_answer = None\<rparr>"

text \<open>
  The dictionary built from the two groups of a match. \<open>float\<close> is applied to the first
  group with no handler around it, so its \<open>ValueError\<close> leaves \<open>parse_answer\<close>.
\<close>

definition build_answer :: "string \<times> string \<Rightarrow> error + answer" where
  "build_answer g =
     (case float_span (fst g) of
        None \<Rightarrow> Inl ValueError
      | Some v \<Rightarrow> Inr \<lparr>ans_value = Some v, ans_unit = Some (snd g),
                       raw_answer = Some (fst g @ '' '' @ snd g)\<rparr>)"

text \<open>
  The argument is what the caller passes: \<open>None\<close> is Python's \<open>None\<close>, on which
  \<open>re.search\<close> raises \<open>TypeError\<close> before any pattern is tried.
\<close>

fun parse_answer :: "string option \<Rightarrow> error + answer" where
  "parse_answer None = Inl TypeError"
| "parse_answer (Some text) =
     (case search match1 text of
        Some g \<Rightarrow> build_answer g
      | None \<Rightarrow>
         (case search match2 text of
            Some g \<Rightarrow> build_answer g
          | None \<Rightarrow>
             (case search match3 text of
                Some g \<Rightarrow> build_answer g
              | None \<Rightarrow>
                 (case findall text of
                    [] \<Rightarrow> Inr no_answer
                  | m # ms \<Rightarrow> build_answer (last (m # ms))))))"

section \<open>The evaluator of \<open>evaluate_method1.py\<close>\<close>

text \<open>
  The \<open>ground_truth\<close> dictionary of an item. \<open>gt_interval\<close> is the value under
  \<open>interval\<close>: absent, or a list of two entries. An entry can be \<open>None\<close>, because
  \<open>run_single_image.py\<close> stores the interval \<open>[None, None]\<close> for an item that has no
  ground truth. \<open>gt_unit\<close> is the value under \<open>unit\<close>.
\<close>

record ground_truth =
  gt_interval :: "(rat option \<times> rat option) option"
  gt_unit :: "string option"

text \<open>
  One entry of the predictions file, with the keys of the source. \<open>question\<close> has no
  value in the entry written when the model returned nothing, and \<open>ground_truth\<close> has
  none until \<open>main\<close> adds it.
\<close>

record prediction_record =
  question_id :: string
  question :: "string option"
  prediction :: "string option"
  predicted_value :: "rat option"
  predicted_unit :: "string option"
  image_type :: "string option"
  ground_truth :: "ground_truth option"

text \<open>
  \<open>is_value_correct\<close>: the chained comparison \<open>min_val <= predicted <= max_val\<close> compares
  the lower bound first and the upper bound only when that holds; comparing \<open>None\<close> with
  a number raises \<open>TypeError\<close>.
\<close>

fun is_value_correct :: "rat option \<Rightarrow> (rat option \<times> rat option) option \<Rightarrow> error + bool" where
  "is_value_correct None _ = Inr False"
| "is_value_correct (Some predicted) None = Inr False"
| "is_value_correct (Some predicted) (Some (None, max_val)) = Inl TypeError"
| "is_value_correct (Some predicted) (Some (Some min_val, max_val)) =
     (if min_val \<le> predicted
      then (case max_val of None \<Rightarrow> Inl TypeError | Some mx \<Rightarrow> Inr (predicted \<le> mx))
      else Inr False)"

fun is_unit_correct :: "string option \<Rightarrow> string option \<Rightarrow> bool" where
  "is_unit_correct None _ = False"
| "is_unit_correct (Some predicted) None = False"
| "is_unit_correct (Some predicted) (Some gt) = (strip (lower predicted) = strip (lower gt))"

record verdict =
  v_question_id :: string
  value_correct :: bool
  unit_correct :: bool
  both_correct :: bool
  v_predicted_value :: "rat option"
  v_predicted_unit :: "string option"
  ground_truth_interval :: "(rat option \<times> rat option) option"
  ground_truth_unit :: "string option"

record metrics =
  total_samples :: nat
  value_accuracy :: rat
  unit_accuracy :: rat
  overall_accuracy :: rat
  value_correct_count :: nat
  unit_correct_count :: nat
  both_correct_count :: nat

text \<open>\<open>pred.get('ground_truth', {})\<close>: an entry without the key counts as the empty dictionary.\<close>

definition gt_of :: "prediction_record \<Rightarrow> ground_truth" where
  "gt_of pred = (case ground_truth pred of
                   None \<Rightarrow> \<lparr>gt_interval = None, gt_unit = None\<rparr>
                 | Some gt \<Rightarrow> gt)"

text \<open>
  The loop of \<open>evaluate\<close> over the loaded predictions; the accumulator holds
  \<open>value_correct\<close>, \<open>unit_correct\<close>, \<open>both_correct\<close> and \<open>detailed_results\<close>. An exception
  of \<open>is_value_correct\<close> ends the whole evaluation.
\<close>

fun evaluate_loop :: "prediction_record list \<Rightarrow> nat \<times> nat \<times> nat \<times> verdict list
                      \<Rightarrow> error + (nat \<times> nat \<times> nat \<times> verdict list)" where
  "evaluate_loop [] acc = Inr acc"
| "evaluate_loop (pred # rest) (vc, uc, bc, detailed) =
     (case is_value_correct (predicted_value pred) (gt_interval (gt_of pred)) of
        Inl e \<Rightarrow> Inl e
      | Inr value_ok \<Rightarrow>
          (let unit_ok = is_unit_correct (predicted_unit pred) (gt_unit (gt_of pred))
           in evaluate_loop rest
                (if value_ok then vc + 1 else vc,
                 if unit_ok then uc + 1 else uc,
                 if value_ok \<and> unit_ok then bc + 1 else bc,
                 detailed @ [\<lparr>v_question_id = question_id pred,
                               value_correct = value_ok,
                               unit_correct = unit_ok,
                               both_correct = (value_ok \<and> unit_ok),
                               v_predicted_value = predicted_value pred,
                               v_predicted_unit = predicted_unit pred,
                               ground_truth_interval = gt_interval (gt_of pred),
                               ground_truth_unit = gt_unit (gt_of pred)\<rparr>])))"

text \<open>\<open>count / total if total > 0 else 0\<close>.\<close>

definition accuracy :: "nat \<Rightarrow> nat \<Rightarrow> rat" where
  "accuracy c n = (if n > 0 then of_nat c / of_nat n else 0)"

definition evaluate :: "prediction_record list \<Rightarrow> error + (metrics \<times> verdict list)" where
  "evaluate predictions =
     (let n = length predictions
      in case evaluate_loop predictions (0, 0, 0, []) of
           Inl e \<Rightarrow> Inl e
         | Inr (vc, uc, bc, detailed) \<Rightarrow>
             Inr (\<lparr>total_samples = n,
                   value_accuracy = accuracy vc n,
                   unit_accuracy = accuracy uc n,
                   overall_accuracy = accuracy bc n,
                   value_correct_count = vc,
                   unit_correct_count = uc,
                   both_correct_count = bc\<rparr>, detailed))"

text \<open>
  The unit check that \<open>main\<close> of \<open>run_single_image.py\<close> makes for its display, in the
  branch where a value was predicted and the interval has a lower bound: both units
  non-empty are compared in lower case, without stripping; otherwise the unit counts as
  correct exactly when the ground truth has no unit. The second argument is the value
  under the key \<open>unit\<close> of a ground truth that has the key.
\<close>

definition display_unit_correct :: "string option \<Rightarrow> string option \<Rightarrow> bool" where
  "display_unit_correct pred_unit gt_u =
     (case (pred_unit, gt_u) of
        (Some p, Some g) \<Rightarrow> if p \<noteq> [] \<and> g \<noteq> [] then lower p = lower g else False
      | (_, None) \<Rightarrow> True
      | (None, Some g) \<Rightarrow> False)"

section \<open>Processing one image: \<open>method1_inference.py\<close> and \<open>run_single_image.py\<close>\<close>

text \<open>One entry of the dataset file; the keys \<open>image_type\<close> and \<open>ground_truth\<close> are optional.\<close>

record dataset_item =
  item_question_id :: string
  item_question :: string
  image_path :: string
  item_image_type :: "string option"
  item_ground_truth :: "ground_truth option"

text \<open>
  What happens inside the \<open>try\<close> block of \<open>process_single\<close> before the answer is
  parsed: opening the image or the query raises, or the query returns, with a text or
  with \<open>None\<close> (the clients of \<open>vlm_client.py\<close> return \<open>None\<close> on an API error).
\<close>

datatype vlm_outcome = Raised | Returned "string option"

text \<open>
  \<open>process_single\<close>. The identifier of the result is \<open>Path(image_path).stem\<close>; \<open>stem\<close>
  stands for that library function. \<open>None\<close> is the value returned by the handler that
  catches every exception of the block, those of \<open>parse_answer\<close> included.
\<close>

definition process_single :: "(string \<Rightarrow> string) \<Rightarrow> string \<Rightarrow> string \<Rightarrow> string option
                              \<Rightarrow> vlm_outcome \<Rightarrow> prediction_record option" where
  "process_single stem path q instrument_type outcome =
     (case outcome of
        Raised \<Rightarrow> None
      | Returned None \<Rightarrow>
          Some \<lparr>question_id = stem path, question = None, prediction = None,
                 predicted_value = None, predicted_unit = None,
                 image_type = instrument_type, ground_truth = None\<rparr>
      | Returned (Some vlm_response) \<Rightarrow>
          (case parse_answer (Some vlm_response) of
             Inl e \<Rightarrow> None
           | Inr parsed \<Rightarrow>
               Some \<lparr>question_id = stem path, question = Some q,
                      prediction = Some vlm_response,
                      predicted_value = ans_value parsed, predicted_unit = ans_unit parsed,
                      image_type = instrument_type, ground_truth = None\<rparr>))"

text \<open>\<open>find_image_in_dataset\<close> called with an \<open>image_id\<close>: the first item with that identifier.\<close>

definition find_image_in_dataset :: "dataset_item list \<Rightarrow> string \<Rightarrow> dataset_item option" where
  "find_image_in_dataset dataset image_id =
     (if image_id \<noteq> [] then find (\<lambda>item. item_question_id item = image_id) dataset
      else None)"

text \<open>The predictions file: \<open>None\<close> when it does not exist, else the list it holds.\<close>

type_synonym predictions_file = "prediction_record list option"

text \<open>The search for \<open>existing_idx\<close>: the first index whose entry has the identifier.\<close>

fun existing_idx :: "string \<Rightarrow> prediction_record list \<Rightarrow> nat option" where
  "existing_idx q [] = None"
| "existing_idx q (pred # rest) =
     (if question_id pred = q then Some 0 else map_option Suc (existing_idx q rest))"

text \<open>The block "update or append to main predictions file": the list written back.\<close>

definition update_or_append :: "prediction_record \<Rightarrow> predictions_file \<Rightarrow> prediction_record list" where
  "update_or_append result file =
     (case file of
        None \<Rightarrow> [result]
      | Some all_predictions \<Rightarrow>
          (case existing_idx (question_id result) all_predictions of
             Some idx \<Rightarrow> all_predictions[idx := result]
           | None \<Rightarrow> all_predictions @ [result]))"

text \<open>
  One run of \<open>run_single_image.py --image_id ...\<close> as the batch runner starts it.
  \<open>Crash\<close> is an exception that nothing in the script catches (the constructor of the
  client raises \<open>ValueError\<close> without credentials), which ends the process with status 1
  before anything is written; \<open>Ran\<close> carries what happens inside \<open>process_single\<close>.
\<close>

datatype attempt = Crash | Ran vlm_outcome

record child =
  status :: nat
  invoked :: bool
  wrote :: bool
  file_after :: predictions_file

text \<open>
  \<open>main\<close>. Every \<open>return\<close> of the script, the one after a failed \<open>process_single\<close>
  included, ends the process with status 0. \<open>invoked\<close> tells whether \<open>process_single\<close>
  was called and \<open>wrote\<close> whether the predictions file was written. The display block
  only prints and is left out, as is the file of the single result.
\<close>

definition main :: "(string \<Rightarrow> string) \<Rightarrow> dataset_item list \<Rightarrow> string \<Rightarrow> attempt
                    \<Rightarrow> predictions_file \<Rightarrow> child" where
  "main stem dataset image_id att file =
     (case find_image_in_dataset dataset image_id of
        None \<Rightarrow> \<lparr>status = 0, invoked = False, wrote = False, file_after = file\<rparr>
      | Some item \<Rightarrow>
          (case att of
             Crash \<Rightarrow> \<lparr>status = 1, invoked = False, wrote = False, file_after = file\<rparr>
           | Ran outcome \<Rightarrow>
               (case process_single stem (image_path item) (item_question item)
                       (Some (case item_image_type item of None \<Rightarrow> ''Unknown'' | Some t \<Rightarrow> t))
                       outcome of
                  None \<Rightarrow> \<lparr>status = 0, invoked = True, wrote = False, file_after = file\<rparr>
                | Some result \<Rightarrow>
                    (let result' = result\<lparr>ground_truth :=
                           Some (case item_ground_truth item of
                                   Some gt \<Rightarrow> gt
                                 | None \<Rightarrow> \<lparr>gt_interval = Some (None, None), gt_unit = None\<rparr>)\<rparr>
                     in \<lparr>status = 0, invoked = True, wrote = True,
                         file_after = Some (update_or_append result' file)\<rparr>))))"

section \<open>The batch runner: \<open>run_full_evaluation.py\<close>\<close>

text \<open>
  The state of a run: the predictions file, the identifiers for which the child process
  was started, those for which \<open>process_single\<close> was called, the number of times the
  predictions file was written, and whether the run ended in \<open>sys.exit(1)\<close>.
\<close>

record run_state =
  output_file :: predictions_file
  launched :: "string list"
  produced :: "string list"
  writes :: nat
  halted :: bool

text \<open>\<open>processed_ids\<close>, built once from the file before the loop.\<close>

definition processed_ids :: "predictions_file \<Rightarrow> string set" where
  "processed_ids f = (case f of None \<Rightarrow> {} | Some existing_data \<Rightarrow> set (map question_id existing_data))"

text \<open>
  The child process that the runner starts through the shell with the command line
  \<open>python run_single_image.py --image_id {image_id} --model {MODEL}\<close>. The identifier
  is put into the command line as it is, so \<open>shell image_id\<close> stands for what the shell
  and the argument parser make of it: \<open>Some a\<close> when \<open>main\<close> runs with \<open>a\<close> as its
  \<open>image_id\<close> (an identifier that is one plain word is passed unchanged), \<open>None\<close> when
  the child ends with a non-zero status before \<open>main\<close> does anything (the parser ends
  it with status 2 for an empty identifier and for one that contains blanks). Command
  lines in which the identifier starts further commands are outside the model.
\<close>

definition child_process :: "(string \<Rightarrow> string option) \<Rightarrow> (string \<Rightarrow> string)
                             \<Rightarrow> dataset_item list \<Rightarrow> string \<Rightarrow> attempt
                             \<Rightarrow> predictions_file \<Rightarrow> child" where
  "child_process shell stem dataset image_id att f =
     (case shell image_id of
        None \<Rightarrow> \<lparr>status = 2, invoked = False, wrote = False, file_after = f\<rparr>
      | Some a \<Rightarrow> main stem dataset a att f)"

text \<open>
  The loop \<open>for i, item in enumerate(dataset)\<close>. \<open>producer i\<close> is what the producer does when
  the child process is started for the item at index \<open>i\<close>. A non-zero return code ends
  the run; the pause between items and the display have no effect on the state.
\<close>

fun run_loop :: "(nat \<Rightarrow> attempt) \<Rightarrow> (string \<Rightarrow> string) \<Rightarrow> (string \<Rightarrow> string option)
                 \<Rightarrow> dataset_item list \<Rightarrow> string set
                 \<Rightarrow> nat \<Rightarrow> dataset_item list \<Rightarrow> run_state \<Rightarrow> run_state" where
  "run_loop producer stem shell dataset skip i [] s = s"
| "run_loop producer stem shell dataset skip i (item # rest) s =
     (let image_id = item_question_id item
      in if image_id \<in> skip then run_loop producer stem shell dataset skip (i + 1) rest s
         else
           (let result = child_process shell stem dataset image_id (producer i) (output_file s);
                s' = s\<lparr>output_file := file_after result,
                       launched := launched s @ [image_id],
                       produced := (if invoked result then produced s @ [image_id] else produced s),
                       writes := (if wrote result then writes s + 1 else writes s)\<rparr>
            in if status result \<noteq> 0 then s'\<lparr>halted := True\<rparr>
               else run_loop producer stem shell dataset skip (i + 1) rest s'))"

definition run_evaluation :: "(nat \<Rightarrow> attempt) \<Rightarrow> (string \<Rightarrow> string)
                              \<Rightarrow> (string \<Rightarrow> string option) \<Rightarrow> dataset_item list
                              \<Rightarrow> predictions_file \<Rightarrow> run_state" where
  "run_evaluation producer stem shell dataset f =
     run_loop producer stem shell dataset (processed_ids f) 0 dataset
       \<lparr>output_file = f, launched = [], produced = [], writes = 0, halted = False\<rparr>"

text \<open>
  \<open>Path(p).stem\<close> for a relative POSIX path that ends in a file name: the last
  component, without its suffix when the last dot is neither its first nor its last
  character.
\<close>

definition posix_stem :: "string \<Rightarrow> string" where
  "posix_stem p =
     (let name = rev (takeWhile (\<lambda>c. c \<noteq> CHR ''/'') (rev p));
          ext = rev (takeWhile (\<lambda>c. c \<noteq> CHR ''.'') (rev name))
      in if CHR ''.'' \<in> set name \<and> ext \<noteq> [] \<and> Suc (length ext) < length name
         then take (length name - Suc (length ext)) name
         else name)"

section \<open>Notions used to state the properties\<close>

text \<open>
  An entry whose interval is absent or has both bounds; the value and unit verdicts of
  an entry, and the row of \<open>detailed_results\<close> made from them.
\<close>

definition bounds_present :: "prediction_record \<Rightarrow> bool" where
  "bounds_present pred = (case gt_interval (gt_of pred) of
                            None \<Rightarrow> True
                          | Some (mn, mx) \<Rightarrow> mn \<noteq> None \<and> mx \<noteq> None)"

definition value_ok :: "prediction_record \<Rightarrow> bool" where
  "value_ok pred = (case (predicted_value pred, gt_interval (gt_of pred)) of
                      (Some v, Some (Some mn, Some mx)) \<Rightarrow> mn \<le> v \<and> v \<le> mx
                    | _ \<Rightarrow> False)"

definition unit_ok :: "prediction_record \<Rightarrow> bool" where
  "unit_ok pred = is_unit_correct (predicted_unit pred) (gt_unit (gt_of pred))"

definition verdict_of :: "prediction_record \<Rightarrow> verdict" where
  "verdict_of pred = \<lparr>v_question_id = question_id pred,
                       value_correct = value_ok pred,
                       unit_correct = unit_ok pred,
                       both_correct = (value_ok pred \<and> unit_ok pred),
                       v_predicted_value = predicted_value pred,
                       v_predicted_unit = predicted_unit pred,
                       ground_truth_interval = gt_interval (gt_of pred),
                       ground_truth_unit = gt_unit (gt_of pred)\<rparr>"

text \<open>
  Concrete data for the scenarios: a dataset item with ground truth, the entry that a
  run stores for it when the model answers \<open>Answer: 4.4 A\<close>, and an item without ground
  truth.
\<close>

definition q_item :: "string \<Rightarrow> dataset_item" where
  "q_item q = \<lparr>item_question_id = q, item_question = ''What is the reading?'',
               image_path = ''images/'' @ q @ ''.png'', item_image_type = None,
               item_ground_truth =
                 Some \<lparr>gt_interval = Some (Some 4, Some 5), gt_unit = Some ''A''\<rparr>\<rparr>"

definition q_record :: "string \<Rightarrow> prediction_record" where
  "q_record q = \<lparr>question_id = q, question = Some ''What is the reading?'',
                 prediction = Some ''Answer: 4.4 A'',
                 predicted_value = Some (22 / 5), predicted_unit = Some ''A'',
                 image_type = Some ''Unknown'',
                 ground_truth =
                   Some \<lparr>gt_interval = Some (Some 4, Some 5), gt_unit = Some ''A''\<rparr>\<rparr>"

definition bare_item :: dataset_item where
  "bare_item = \<lparr>item_question_id = ''q1'', item_question = ''What is the reading?'',
                image_path = ''images/q1.png'', item_image_type = None,
                item_ground_truth = None\<rparr>"

definition bare_record :: prediction_record where
  "bare_record = \<lparr>question_id = ''q1'', question = Some ''What is the reading?'',
                  prediction = Some ''Answer: 4.4 A'',
                  predicted_value = Some (22 / 5), predicted_unit = Some ''A'',
                  image_type = Some ''Unknown'',
                  ground_truth = Some \<lparr>gt_interval = Some (None, None), gt_unit = None\<rparr>\<rparr>"

text \<open>The entry of a second run for \<open>q1\<close>, with a different answer of the model.\<close>

definition q1_rerun :: prediction_record where
  "q1_rerun = (q_record ''q1'')\<lparr>prediction := Some ''Answer: 4.5 A'',
                                  predicted_value := Some (9 / 2)\<rparr>"

text \<open>
  The two groups of a match: a non-empty span of the class \<open>[0-9.]\<close> and a non-empty
  span of unit characters.
\<close>

definition wf_groups :: "string \<times> string \<Rightarrow> bool" where
  "wf_groups g = (fst g \<noteq> [] \<and> list_all is_numch (fst g)
                  \<and> snd g \<noteq> [] \<and> list_all is_unitch (snd g))"

text \<open>
  An attempt after which \<open>main\<close> stores an entry: the query returned no text, or a text
  on which \<open>parse_answer\<close> does not raise.
\<close>

definition stores :: "attempt \<Rightarrow> bool" where
  "stores att = (case att of
                   Crash \<Rightarrow> False
                 | Ran Raised \<Rightarrow> False
                 | Ran (Returned None) \<Rightarrow> True
                 | Ran (Returned (Some t)) \<Rightarrow>
                     (case parse_answer (Some t) of Inl e \<Rightarrow> False | Inr a \<Rightarrow> True))"

section \<open>Absent producer output\<close>

text \<open>
  C2, as stated: for an absent text the extractor returns the answer with value, unit
  and raw span all absent, and raises nothing. \<open>parse_answer\<close> has no branch for
  \<open>None\<close>: its first statement passes the text to \<open>re.search\<close>, which raises
  \<open>TypeError\<close>, so the claim fails at the input \<open>None\<close>.
\<close>

theorem parse_answer_None_raises:
  "parse_answer None = Inl TypeError \<and> parse_answer None \<noteq> Inr no_answer"
  by simp

text \<open>
  C2, amended: the absent output is handled by the caller. When the query returns
  \<open>None\<close>, \<open>process_single\<close> does not call the extractor and returns a result whose
  prediction, predicted value and predicted unit are all absent; the result has no raw
  span.
\<close>

theorem process_single_absent_response:
  "\<exists>r. process_single stem path q instrument_type (Returned None) = Some r
       \<and> question_id r = stem path \<and> prediction r = None
       \<and> predicted_value r = None \<and> predicted_unit r = None"
  by (simp add: process_single_def)

section \<open>Unit matching\<close>

text \<open>
  C8, as stated: the unit-match check returns false when either side is absent, and
  otherwise compares after lower-casing and stripping. The check that \<open>main\<close> of
  \<open>run_single_image.py\<close> makes for its display counts a predicted unit as correct when
  the ground truth has no unit (its comment says so), and it does not strip.
\<close>

theorem display_unit_check_differs:
  "display_unit_correct (Some ''A'') None
   \<and> \<not> display_unit_correct (Some '' A '') (Some ''A'')"
  by code_simp

text \<open>
  C8, amended: \<open>Method1Evaluator.is_unit_correct\<close> returns false when either side is
  absent and otherwise returns true exactly when the two strings are equal after
  lower-casing and stripping the surrounding white space of both; the three examples
  hold for it. The display check of \<open>run_single_image.py\<close> is a different check: it
  counts the unit as correct whenever the ground truth has no unit.
\<close>

theorem is_unit_correct_spec:
  "is_unit_correct p g =
     (case (p, g) of (Some a, Some b) \<Rightarrow> strip (lower a) = strip (lower b) | _ \<Rightarrow> False)
   \<and> is_unit_correct (Some ''A'') (Some ''a'')
   \<and> is_unit_correct (Some '' A '') (Some ''A'')
   \<and> \<not> is_unit_correct None (Some ''A'')
   \<and> display_unit_correct p None"
proof -
  have "is_unit_correct p g =
          (case (p, g) of (Some a, Some b) \<Rightarrow> strip (lower a) = strip (lower b) | _ \<Rightarrow> False)"
    by (cases p; cases g) simp_all
  moreover have "is_unit_correct (Some ''A'') (Some ''a'')" by code_simp
  moreover have "is_unit_correct (Some '' A '') (Some ''A'')" by code_simp
  moreover have "\<not> is_unit_correct None (Some ''A'')" by simp
  moreover have "display_unit_correct p None"
    by (cases p) (simp_all add: display_unit_correct_def)
  ultimately show ?thesis by blast
qed

section \<open>Batch scoring\<close>

lemma is_value_correct_value_ok:
  assumes "bounds_present pred"
  shows "is_value_correct (predicted_value pred) (gt_interval (gt_of pred)) = Inr (value_ok pred)"
proof (cases "predicted_value pred")
  case None
  then show ?thesis by (simp add: value_ok_def)
next
  case (Some v)
  show ?thesis
  proof (cases "gt_interval (gt_of pred)")
    case None
    with Some show ?thesis by (simp add: value_ok_def)
  next
    case (Some iv)
    obtain mn mx where iv: "iv = (mn, mx)" by (cases iv)
    from assms Some iv obtain a b where "mn = Some a" "mx = Some b"
      by (auto simp: bounds_present_def)
    with \<open>predicted_value pred = Some v\<close> Some iv show ?thesis
      by (simp add: value_ok_def)
  qed
qed

lemma evaluate_loop_counts:
  assumes "list_all bounds_present ps"
  shows "evaluate_loop ps (vc, uc, bc, detailed) =
           Inr (vc + length (filter value_ok ps),
                uc + length (filter unit_ok ps),
                bc + length (filter (\<lambda>p. value_ok p \<and> unit_ok p) ps),
                detailed @ map verdict_of ps)"
  using assms
proof (induction ps arbitrary: vc uc bc detailed)
  case Nil
  then show ?case by simp
next
  case (Cons p ps)
  then have p: "bounds_present p" and ps: "list_all bounds_present ps" by simp_all
  show ?case
    by (simp add: is_value_correct_value_ok [OF p] Cons.IH [OF ps] Let_def
                  unit_ok_def [symmetric] verdict_of_def)
qed

text \<open>
  On entries whose intervals are absent or have both bounds, scoring returns: the total
  is the number of entries, the counts are those of the entries with a correct value, a
  correct unit and both, each accuracy is its count divided by the total, and 0 for no
  entries.
\<close>

lemma evaluate_complete_intervals:
  assumes "list_all bounds_present ps"
  shows "evaluate ps =
           Inr (\<lparr>total_samples = length ps,
                 value_accuracy = accuracy (length (filter value_ok ps)) (length ps),
                 unit_accuracy = accuracy (length (filter unit_ok ps)) (length ps),
                 overall_accuracy =
                   accuracy (length (filter (\<lambda>p. value_ok p \<and> unit_ok p) ps)) (length ps),
                 value_correct_count = length (filter value_ok ps),
                 unit_correct_count = length (filter unit_ok ps),
                 both_correct_count = length (filter (\<lambda>p. value_ok p \<and> unit_ok p) ps)\<rparr>,
                map verdict_of ps)"
  by (simp add: evaluate_def Let_def evaluate_loop_counts [OF assms])

lemma evaluate_empty:
  "evaluate [] =
     Inr (\<lparr>total_samples = 0, value_accuracy = 0, unit_accuracy = 0, overall_accuracy = 0,
           value_correct_count = 0, unit_correct_count = 0, both_correct_count = 0\<rparr>, [])"
  by (simp add: evaluate_def accuracy_def)

text \<open>
  C9 says that scoring never raises. For a dataset item without ground truth
  \<open>run_single_image.py\<close> stores the interval \<open>[None, None]\<close>; when the entry has a
  predicted value, \<open>is_value_correct\<close> compares \<open>None\<close> with it and the \<open>TypeError\<close>
  ends \<open>evaluate\<close>. The other scripts test \<open>gt_interval[0] is not None\<close> before they
  compare. The theorem runs the code on that input: the entry is the one \<open>main\<close> writes
  for the item, and scoring the file raises.
\<close>

theorem evaluate_placeholder_interval_raises:
  "file_after (main posix_stem [bare_item] ''q1'' (Ran (Returned (Some ''Answer: 4.4 A''))) None)
     = Some [bare_record]
   \<and> evaluate [bare_record] = Inl TypeError"
  by code_simp

section \<open>Fail-fast\<close>

text \<open>
  C1 says that a producer failure on \<open>q2\<close> halts the batch: only \<open>q1\<close> is stored and the
  producer is never called for \<open>q3\<close>. The runner stops on a non-zero return code, but
  \<open>run_single_image.py\<close> leaves \<open>main\<close> by a plain \<open>return\<close> when \<open>process_single\<close> has
  failed, so the child ends with status 0 and the runner goes on. The theorem runs the
  code on the dataset \<open>[q1, q2, q3]\<close> with the file absent (the three identifiers are
  plain words, which the command line passes unchanged): when the query raises for
  \<open>q2\<close> the run stores \<open>q1\<close> and \<open>q3\<close>; when the query returns \<open>None\<close> for \<open>q2\<close> an entry
  without prediction is stored for \<open>q2\<close> as well; in both runs \<open>process_single\<close> is called
  for \<open>q3\<close> and the run does not halt.
\<close>

theorem producer_failure_does_not_halt:
  "run_evaluation (\<lambda>i. if i = 1 then Ran Raised else Ran (Returned (Some ''Answer: 4.4 A'')))
       posix_stem Some [q_item ''q1'', q_item ''q2'', q_item ''q3''] None
     = \<lparr>output_file = Some [q_record ''q1'', q_record ''q3''],
        launched = [''q1'', ''q2'', ''q3''], produced = [''q1'', ''q2'', ''q3''],
        writes = 2, halted = False\<rparr>
   \<and> run_evaluation (\<lambda>i. if i = 1 then Ran (Returned None)
                          else Ran (Returned (Some ''Answer: 4.4 A'')))
       posix_stem Some [q_item ''q1'', q_item ''q2'', q_item ''q3''] None
     = \<lparr>output_file =
          Some [q_record ''q1'',
                \<lparr>question_id = ''q2'', question = None, prediction = None,
                 predicted_value = None, predicted_unit = None,
                 image_type = Some ''Unknown'',
                 ground_truth =
                   Some \<lparr>gt_interval = Some (Some 4, Some 5), gt_unit = Some ''A''\<rparr>\<rparr>,
                q_record ''q3''],
        launched = [''q1'', ''q2'', ''q3''], produced = [''q1'', ''q2'', ''q3''],
        writes = 3, halted = False\<rparr>"
  by code_simp

text \<open>
  The runner does halt on a child that ends with a non-zero status: then \<open>q1\<close> alone is
  stored and nothing is started for \<open>q3\<close>.
\<close>

lemma child_crash_halts:
  "run_evaluation (\<lambda>i. if i = 1 then Crash else Ran (Returned (Some ''Answer: 4.4 A'')))
       posix_stem Some [q_item ''q1'', q_item ''q2'', q_item ''q3''] None
     = \<lparr>output_file = Some [q_record ''q1''],
        launched = [''q1'', ''q2''], produced = [''q1''],
        writes = 1, halted = True\<rparr>"
  by code_simp

section \<open>Replace or append\<close>

lemma existing_idx_None: "existing_idx q ps = None \<longleftrightarrow> q \<notin> question_id ` set ps"
  by (induction ps) auto

lemma existing_idx_Some:
  "existing_idx q ps = Some i \<Longrightarrow> i < length ps \<and> question_id (ps ! i) = q"
proof (induction ps arbitrary: i)
  case Nil
  then show ?case by simp
next
  case (Cons p ps)
  then show ?case by (auto split: if_splits)
qed

lemma ids_after_replace:
  "i < length ps \<Longrightarrow> question_id (ps ! i) = question_id r
   \<Longrightarrow> map question_id (ps[i := r]) = map question_id ps"
  by (simp add: map_update list_update_same_conv)

lemma update_or_append_ids:
  "map question_id (update_or_append r (Some ps)) =
     (if question_id r \<in> set (map question_id ps) then map question_id ps
      else map question_id ps @ [question_id r])"
proof (cases "existing_idx (question_id r) ps")
  case None
  then have "question_id r \<notin> question_id ` set ps" by (simp add: existing_idx_None)
  with None show ?thesis by (simp add: update_or_append_def)
next
  case (Some i)
  from existing_idx_Some [OF Some] have i: "i < length ps" "question_id (ps ! i) = question_id r"
    by simp_all
  then have "question_id r \<in> set (map question_id ps)"
    by (metis length_map nth_map nth_mem)
  with Some i show ?thesis by (simp add: update_or_append_def ids_after_replace)
qed

text \<open>
  C4: when the identifier of the result is already in the collection, the block that
  updates the predictions file replaces the entry at the first index that holds it and
  appends nothing, so the length does not change; and a write keeps the identifiers
  distinct, from a file that does not exist yet as from a collection whose identifiers
  are distinct.
\<close>

theorem update_or_append_replaces:
  "(question_id r \<in> set (map question_id ps) \<longrightarrow>
      (\<exists>i<length ps. question_id (ps ! i) = question_id r
                     \<and> update_or_append r (Some ps) = ps[i := r])
      \<and> length (update_or_append r (Some ps)) = length ps)
   \<and> (distinct (map question_id ps) \<longrightarrow>
        distinct (map question_id (update_or_append r (Some ps))))
   \<and> distinct (map question_id (update_or_append r None))"
proof (intro conjI impI)
  assume present: "question_id r \<in> set (map question_id ps)"
  then obtain i where idx: "existing_idx (question_id r) ps = Some i"
    using existing_idx_None [of "question_id r" ps] by (cases "existing_idx (question_id r) ps") auto
  from existing_idx_Some [OF idx] idx
  show "\<exists>i<length ps. question_id (ps ! i) = question_id r
                     \<and> update_or_append r (Some ps) = ps[i := r]"
    by (auto simp: update_or_append_def)
  from idx show "length (update_or_append r (Some ps)) = length ps"
    by (simp add: update_or_append_def)
next
  assume "distinct (map question_id ps)"
  then show "distinct (map question_id (update_or_append r (Some ps)))"
    by (simp add: update_or_append_ids)
next
  show "distinct (map question_id (update_or_append r None))"
    by (simp add: update_or_append_def)
qed

theorem update_or_append_replaces_witness:
  "question_id q1_rerun \<in> set (map question_id [q_record ''q1'', q_record ''q2''])
   \<and> distinct (map question_id [q_record ''q1'', q_record ''q2''])
   \<and> update_or_append q1_rerun (Some [q_record ''q1'', q_record ''q2''])
       = [q1_rerun, q_record ''q2'']
   \<and> length (update_or_append q1_rerun (Some [q_record ''q1'', q_record ''q2''])) = 2
   \<and> distinct (map question_id
                 (update_or_append q1_rerun (Some [q_record ''q1'', q_record ''q2''])))"
  using update_or_append_replaces [of q1_rerun "[q_record ''q1'', q_record ''q2'']"]
  by (simp add: q1_rerun_def q_record_def update_or_append_def)

section \<open>The shape of an extracted answer\<close>

lemma num_unit_groups:
  assumes "num_unit s = Some (g, rest)"
  shows "wf_groups g"
proof -
  from assms have g: "g = (takeWhile is_numch s,
                           takeWhile is_unitch (dropWhile is_space (dropWhile is_numch s)))"
    and ne: "fst g \<noteq> []" "snd g \<noteq> []"
    by (auto simp: num_unit_def Let_def split: if_splits)
  have "list_all is_numch (fst g)" "list_all is_unitch (snd g)"
    unfolding g by (auto simp: list_all_iff dest: set_takeWhileD)
  with ne show ?thesis by (simp add: wf_groups_def)
qed

lemma match1_groups: "match1 s = Some (g, rest) \<Longrightarrow> wf_groups g"
  by (auto simp: match1_def split: option.splits dest: num_unit_groups)

lemma reading_groups: "reading s = Some (g, rest) \<Longrightarrow> wf_groups g"
  by (auto simp: reading_def split: option.splits dest: num_unit_groups)

lemma match2_groups: "match2 s = Some (g, rest) \<Longrightarrow> wf_groups g"
  by (auto simp: match2_def split: option.splits dest: reading_groups)

lemma hedge_groups: "hedge w s = Some (g, rest) \<Longrightarrow> wf_groups g"
  by (auto simp: hedge_def split: option.splits dest: num_unit_groups)

lemma match3_groups: "match3 s = Some (g, rest) \<Longrightarrow> wf_groups g"
  by (auto simp: match3_def split: option.splits dest: hedge_groups)

lemma search_groups:
  assumes "\<And>s g rest. m s = Some (g, rest) \<Longrightarrow> P g"
  shows "search m t = Some g \<Longrightarrow> P g"
proof (induction t)
  case Nil
  then show ?case using assms by (cases "m []") auto
next
  case (Cons c cs)
  then show ?case using assms by (cases "m (c # cs)") auto
qed

lemma findall_groups: "g \<in> set (findall t) \<Longrightarrow> wf_groups g"
proof (induction t rule: findall.induct)
  case 1
  then show ?case by simp
next
  case (2 c cs)
  then show ?case
    by (cases "num_unit (c # cs)") (auto dest: num_unit_groups)
qed

lemma build_answer_Inr:
  assumes "build_answer g = Inr a"
  shows "\<exists>v. float_span (fst g) = Some v
             \<and> a = \<lparr>ans_value = Some v, ans_unit = Some (snd g),
                     raw_answer = Some (fst g @ '' '' @ snd g)\<rparr>"
  using assms by (auto simp: build_answer_def split: option.splits)

lemma build_answer_Inl: "build_answer g = Inl e \<Longrightarrow> e = ValueError \<and> float_span (fst g) = None"
  by (auto simp: build_answer_def split: option.splits)

text \<open>
  Either no pattern matches and the answer is the empty one, or \<open>parse_answer\<close> is
  \<open>build_answer\<close> of the groups of one match.
\<close>

lemma parse_answer_cases:
  "(parse_answer (Some t) = Inr no_answer \<and> findall t = [])
   \<or> (\<exists>g. wf_groups g \<and> parse_answer (Some t) = build_answer g)"
proof (cases "search match1 t")
  case (Some g)
  from match1_groups Some have "wf_groups g" by (rule search_groups)
  moreover from Some have "parse_answer (Some t) = build_answer g" by simp
  ultimately show ?thesis by blast
next
  case n1: None
  show ?thesis
  proof (cases "search match2 t")
    case (Some g)
    from match2_groups Some have "wf_groups g" by (rule search_groups)
    moreover from n1 Some have "parse_answer (Some t) = build_answer g" by simp
    ultimately show ?thesis by blast
  next
    case n2: None
    show ?thesis
    proof (cases "search match3 t")
      case (Some g)
      from match3_groups Some have "wf_groups g" by (rule search_groups)
      moreover from n1 n2 Some have "parse_answer (Some t) = build_answer g" by simp
      ultimately show ?thesis by blast
    next
      case n3: None
      show ?thesis
      proof (cases "findall t")
        case Nil
        with n1 n2 n3 show ?thesis by simp
      next
        case (Cons m ms)
        then have "last (m # ms) \<in> set (findall t)" by (metis last_in_set list.distinct(1))
        then have "wf_groups (last (m # ms))" by (rule findall_groups)
        moreover from n1 n2 n3 Cons
        have "parse_answer (Some t) = build_answer (last (m # ms))" by simp
        ultimately show ?thesis by blast
      qed
    qed
  qed
qed

text \<open>
  C10: every answer that \<open>parse_answer\<close> returns for a string is all or nothing. Either
  value, unit and raw span are all absent, or the value is the number read from a
  matched span, the unit is a non-empty string of letters, degree, percent and slash
  characters, and the raw span is the matched number, one space and the matched unit.
\<close>

theorem parse_answer_all_or_nothing:
  "parse_answer (Some t) = Inr a \<longrightarrow>
     a = no_answer
     \<or> (\<exists>n u v. n \<noteq> [] \<and> list_all is_numch n \<and> float_span n = Some v
                 \<and> u \<noteq> [] \<and> list_all is_unitch u
                 \<and> a = \<lparr>ans_value = Some v, ans_unit = Some u,
                         raw_answer = Some (n @ '' '' @ u)\<rparr>)"
proof
  assume a: "parse_answer (Some t) = Inr a"
  from parse_answer_cases [of t] show "a = no_answer
     \<or> (\<exists>n u v. n \<noteq> [] \<and> list_all is_numch n \<and> float_span n = Some v
                 \<and> u \<noteq> [] \<and> list_all is_unitch u
                 \<and> a = \<lparr>ans_value = Some v, ans_unit = Some u,
                         raw_answer = Some (n @ '' '' @ u)\<rparr>)"
  proof
    assume "parse_answer (Some t) = Inr no_answer \<and> findall t = []"
    with a show ?thesis by simp
  next
    assume "\<exists>g. wf_groups g \<and> parse_answer (Some t) = build_answer g"
    then obtain g where g: "wf_groups g" and p: "parse_answer (Some t) = build_answer g" by blast
    from a p have "build_answer g = Inr a" by simp
    from build_answer_Inr [OF this] obtain v where
      "float_span (fst g) = Some v"
      "a = \<lparr>ans_value = Some v, ans_unit = Some (snd g), raw_answer = Some (fst g @ '' '' @ snd g)\<rparr>"
      by blast
    with g show ?thesis unfolding wf_groups_def by blast
  qed
qed

theorem parse_answer_all_or_nothing_witness:
  "parse_answer (Some ''The pointer is at 66 ml'')
     = Inr \<lparr>ans_value = Some 66, ans_unit = Some ''ml'', raw_answer = Some ''66 ml''\<rparr>
   \<and> \<lparr>ans_value = Some 66, ans_unit = Some ''ml'', raw_answer = Some ''66 ml''\<rparr> \<noteq> no_answer
   \<and> (\<exists>n u v. n \<noteq> [] \<and> list_all is_numch n \<and> float_span n = Some v
               \<and> u \<noteq> [] \<and> list_all is_unitch u
               \<and> \<lparr>ans_value = Some 66, ans_unit = Some ''ml'', raw_answer = Some ''66 ml''\<rparr>
                   = \<lparr>ans_value = Some v, ans_unit = Some u,
                      raw_answer = Some (n @ '' '' @ u)\<rparr>)"
proof -
  let ?a = "\<lparr>ans_value = Some 66, ans_unit = Some ''ml'', raw_answer = Some ''66 ml''\<rparr>"
  have p: "parse_answer (Some ''The pointer is at 66 ml'') = Inr ?a"
    by code_simp
  have ne: "?a \<noteq> no_answer"
    by (simp add: no_answer_def)
  from parse_answer_all_or_nothing [of "''The pointer is at 66 ml''" ?a] p ne
  have "\<exists>n u v. n \<noteq> [] \<and> list_all is_numch n \<and> float_span n = Some v
               \<and> u \<noteq> [] \<and> list_all is_unitch u
               \<and> ?a = \<lparr>ans_value = Some v, ans_unit = Some u,
                        raw_answer = Some (n @ '' '' @ u)\<rparr>"
    by blast
  with p ne show ?thesis by blast
qed

section \<open>Numeric spans that do not parse\<close>

text \<open>
  C7, as stated: a matched span that does not parse as a float counts as no match, the
  next rule is tried, and the extractor raises on no string. In \<open>Answer: 1.2.3 V\<close> the
  class \<open>[0-9.]\<close> matches \<open>1.2.3\<close>; \<open>float\<close> raises \<open>ValueError\<close> on it, and
  \<open>parse_answer\<close> has no handler, so the exception leaves it. Falling through would
  have given the empty answer here.
\<close>

theorem malformed_span_counterexample: "parse_answer (Some ''Answer: 1.2.3 V'') = Inl ValueError
   \<and> parse_answer (Some ''Answer: 1.2.3 V'') \<noteq> Inr no_answer"
  by code_simp

lemma parse_answer_rule1: "search match1 t = Some g \<Longrightarrow> parse_answer (Some t) = build_answer g"
  by simp

lemma parse_answer_rule2:
  "search match1 t = None \<Longrightarrow> search match2 t = Some g \<Longrightarrow> parse_answer (Some t) = build_answer g"
  by simp

lemma parse_answer_rule3:
  "search match1 t = None \<Longrightarrow> search match2 t = None \<Longrightarrow> search match3 t = Some g
   \<Longrightarrow> parse_answer (Some t) = build_answer g"
  by simp

lemma parse_answer_rule4:
  "search match1 t = None \<Longrightarrow> search match2 t = None \<Longrightarrow> search match3 t = None
   \<Longrightarrow> parse_answer (Some t) = (if findall t = [] then Inr no_answer
                                else build_answer (last (findall t)))"
  by (cases "findall t") simp_all

lemma build_answer_malformed: "float_span (fst g) = None \<Longrightarrow> build_answer g = Inl ValueError"
  by (simp add: build_answer_def)

lemma parse_answer_error: "parse_answer (Some t) = Inl e \<Longrightarrow> e = ValueError"
  using parse_answer_cases [of t] build_answer_Inl by (auto simp: no_answer_def)

text \<open>
  C7, amended: a matched candidate whose numeric span does not parse as a float is not
  skipped. When the first rule that matches (for the fourth rule: the last pair found)
  has such a span, \<open>parse_answer\<close> raises \<open>ValueError\<close> and tries no further rule.
  \<open>ValueError\<close> is the only exception it raises on a string, and \<open>process_single\<close>
  catches it and returns no result.
\<close>

theorem malformed_span_raises:
  "(search match1 t = Some g \<and> float_span (fst g) = None
      \<longrightarrow> parse_answer (Some t) = Inl ValueError)
   \<and> (search match1 t = None \<and> search match2 t = Some g \<and> float_span (fst g) = None
      \<longrightarrow> parse_answer (Some t) = Inl ValueError)
   \<and> (search match1 t = None \<and> search match2 t = None \<and> search match3 t = Some g
        \<and> float_span (fst g) = None
      \<longrightarrow> parse_answer (Some t) = Inl ValueError)
   \<and> (search match1 t = None \<and> search match2 t = None \<and> search match3 t = None
        \<and> findall t \<noteq> [] \<and> float_span (fst (last (findall t))) = None
      \<longrightarrow> parse_answer (Some t) = Inl ValueError)
   \<and> (parse_answer (Some t) = Inl e \<longrightarrow> e = ValueError)
   \<and> (parse_answer (Some t) = Inl e
      \<longrightarrow> process_single stem path q instrument_type (Returned (Some t)) = None)"
proof (intro conjI impI)
  assume "search match1 t = Some g \<and> float_span (fst g) = None"
  then show "parse_answer (Some t) = Inl ValueError"
    by (simp add: build_answer_malformed)
next
  assume "search match1 t = None \<and> search match2 t = Some g \<and> float_span (fst g) = None"
  then show "parse_answer (Some t) = Inl ValueError"
    by (simp add: build_answer_malformed)
next
  assume "search match1 t = None \<and> search match2 t = None \<and> search match3 t = Some g
        \<and> float_span (fst g) = None"
  then show "parse_answer (Some t) = Inl ValueError"
    by (simp add: build_answer_malformed)
next
  assume "search match1 t = None \<and> search match2 t = None \<and> search match3 t = None
        \<and> findall t \<noteq> [] \<and> float_span (fst (last (findall t))) = None"
  then show "parse_answer (Some t) = Inl ValueError"
    by (simp add: parse_answer_rule4 build_answer_malformed del: parse_answer.simps)
next
  assume "parse_answer (Some t) = Inl e"
  then show "e = ValueError" by (rule parse_answer_error)
next
  assume "parse_answer (Some t) = Inl e"
  then show "process_single stem path q instrument_type (Returned (Some t)) = None"
    by (simp add: process_single_def)
qed

theorem malformed_span_raises_witness:
  "search match1 ''Answer: 1.2.3 V'' = Some (''1.2.3'', ''V'')
   \<and> float_span ''1.2.3'' = None
   \<and> parse_answer (Some ''Answer: 1.2.3 V'') = Inl ValueError
   \<and> process_single posix_stem ''images/q1.png'' ''What is the reading?'' None
         (Returned (Some ''Answer: 1.2.3 V'')) = None"
proof -
  have m: "search match1 ''Answer: 1.2.3 V'' = Some (''1.2.3'', ''V'')"
    by code_simp
  have f: "float_span (fst (''1.2.3'', ''V'')) = None"
    by code_simp
  note inst = malformed_span_raises [of "''Answer: 1.2.3 V''" "(''1.2.3'', ''V'')" ValueError
      posix_stem "''images/q1.png''" "''What is the reading?''" None]
  from inst m f have p: "parse_answer (Some ''Answer: 1.2.3 V'') = Inl ValueError"
    by blast
  with inst have "process_single posix_stem ''images/q1.png'' ''What is the reading?'' None
         (Returned (Some ''Answer: 1.2.3 V'')) = None"
    by blast
  with m f p show ?thesis by simp
qed

section \<open>The marker \<open>Answer:\<close>\<close>

text \<open>A search goes past a prefix in which the pattern matches at no position.\<close>

lemma search_skip:
  "\<forall>k<length pre. m (drop k (pre @ s)) = None \<Longrightarrow> search m (pre @ s) = search m s"
proof (induction pre)
  case Nil
  then show ?case by simp
next
  case (Cons c pre)
  from Cons.prems have "m (drop 0 ((c # pre) @ s)) = None" by blast
  then have here: "m (c # pre @ s) = None" by simp
  have "\<forall>k<length pre. m (drop k (pre @ s)) = None"
  proof (intro allI impI)
    fix k assume "k < length pre"
    then have "Suc k < length (c # pre)" by simp
    with Cons.prems have "m (drop (Suc k) ((c # pre) @ s)) = None" by blast
    then show "m (drop k (pre @ s)) = None" by simp
  qed
  with Cons.IH have "search m (pre @ s) = search m s" by simp
  with here show ?case by simp
qed

lemma unit_A: "post = [] \<or> \<not> is_unitch (hd post) \<Longrightarrow> takeWhile is_unitch (CHR ''A'' # post) = ''A''
   \<and> dropWhile is_unitch (CHR ''A'' # post) = post"
  by (cases post) (simp_all add: is_unitch_def is_letter_def)

lemma match1_marker:
  assumes "post = [] \<or> \<not> is_unitch (hd post)"
  shows "match1 (''Answer: 4.4 A'' @ post) = Some ((''4.4'', ''A''), post)"
  using unit_A [OF assms]
  by (simp add: match1_def num_unit_def lower_char_def is_space_def is_numch_def is_digit_def Let_def)


text \<open>
  C5, as stated: every text that contains \<open>Answer: 4.4 A\<close> yields the value 4.4 and the
  unit \<open>A\<close>, whatever stands before or after. The unit group is greedy, so letters that
  follow the \<open>A\<close> belong to the unit; and \<open>re.search\<close> returns the leftmost match, so an
  earlier \<open>Answer:\<close> in the text decides.
\<close>

theorem answer_marker_counterexample:
  "parse_answer (Some (''Answer: 4.4 A'' @ ''mps''))
     = Inr \<lparr>ans_value = Some (22 / 5), ans_unit = Some ''Amps'', raw_answer = Some ''4.4 Amps''\<rparr>
   \<and> parse_answer (Some (''Answer: 3 V. '' @ ''Answer: 4.4 A''))
     = Inr \<lparr>ans_value = Some 3, ans_unit = Some ''V'', raw_answer = Some ''3 V''\<rparr>"
  by code_simp

text \<open>
  C5, amended: when the pattern \<open>Answer:\<close> matches at no position before the substring
  \<open>Answer: 4.4 A\<close>, and the substring is at the end of the text or followed by a
  character that is no letter, degree sign, percent sign or slash, the extractor returns
  the value 4.4, the unit \<open>A\<close> and the raw span \<open>4.4 A\<close>. The rule of the marker
  \<open>Answer:\<close> is tried first, and whenever it matches the outcome is that of its
  leftmost match, never that of a later rule.
\<close>

theorem answer_marker_first:
  "((\<forall>k<length pre. match1 (drop k (pre @ ''Answer: 4.4 A'' @ post)) = None)
      \<and> (post = [] \<or> \<not> is_unitch (hd post))
     \<longrightarrow> parse_answer (Some (pre @ ''Answer: 4.4 A'' @ post))
           = Inr \<lparr>ans_value = Some (22 / 5), ans_unit = Some ''A'',
                  raw_answer = Some ''4.4 A''\<rparr>)
   \<and> (search match1 t = Some g \<longrightarrow> parse_answer (Some t) = build_answer g)"
proof (intro conjI impI)
  assume h: "(\<forall>k<length pre. match1 (drop k (pre @ ''Answer: 4.4 A'' @ post)) = None)
      \<and> (post = [] \<or> \<not> is_unitch (hd post))"
  then have "\<forall>k<length pre. match1 (drop k (pre @ ''Answer: 4.4 A'' @ post)) = None" ..
  then have "search match1 (pre @ ''Answer: 4.4 A'' @ post) = search match1 (''Answer: 4.4 A'' @ post)"
    by (rule search_skip)
  also from h have "\<dots> = Some (''4.4'', ''A'')"
    using match1_marker [of post] by simp
  finally have "parse_answer (Some (pre @ ''Answer: 4.4 A'' @ post)) = build_answer (''4.4'', ''A'')"
    by simp
  also have "\<dots> = Inr \<lparr>ans_value = Some (22 / 5), ans_unit = Some ''A'',
                  raw_answer = Some ''4.4 A''\<rparr>"
    by code_simp
  finally show "parse_answer (Some (pre @ ''Answer: 4.4 A'' @ post))
           = Inr \<lparr>ans_value = Some (22 / 5), ans_unit = Some ''A'',
                  raw_answer = Some ''4.4 A''\<rparr>" .
next
  assume "search match1 t = Some g"
  then show "parse_answer (Some t) = build_answer g" by simp
qed

theorem answer_marker_first_witness:
  "list_all (\<lambda>k. match1 (drop k (''Scale: 0-10 A. '' @ ''Answer: 4.4 A'' @ ''. Reading: 9 V'')) = None)
            [0..<length ''Scale: 0-10 A. '']
   \<and> \<not> is_unitch (hd ''. Reading: 9 V'')
   \<and> parse_answer (Some (''Scale: 0-10 A. '' @ ''Answer: 4.4 A'' @ ''. Reading: 9 V''))
       = Inr \<lparr>ans_value = Some (22 / 5), ans_unit = Some ''A'', raw_answer = Some ''4.4 A''\<rparr>"
proof -
  have none: "list_all (\<lambda>k. match1 (drop k (''Scale: 0-10 A. '' @ ''Answer: 4.4 A'' @ ''. Reading: 9 V'')) = None)
            [0..<length ''Scale: 0-10 A. '']"
    by code_simp
  then have h1: "\<forall>k<length ''Scale: 0-10 A. ''.
                   match1 (drop k (''Scale: 0-10 A. '' @ ''Answer: 4.4 A'' @ ''. Reading: 9 V'')) = None"
    unfolding list_all_iff by (metis atLeastLessThan_iff set_upt zero_le)
  have h2: "\<not> is_unitch (hd ''. Reading: 9 V'')"
    by code_simp
  from answer_marker_first [of "''Scale: 0-10 A. ''" "''. Reading: 9 V''"] h1 h2
  have "parse_answer (Some (''Scale: 0-10 A. '' @ ''Answer: 4.4 A'' @ ''. Reading: 9 V''))
       = Inr \<lparr>ans_value = Some (22 / 5), ans_unit = Some ''A'', raw_answer = Some ''4.4 A''\<rparr>"
    by blast
  with none h2 show ?thesis by blast
qed

section \<open>The fallback rule\<close>

text \<open>White space is in neither of the two other classes.\<close>

lemma space_not_numch: "is_space c \<Longrightarrow> \<not> is_numch c"
  by (auto simp: is_space_def is_numch_def is_digit_def Let_def)

lemma space_not_unitch: "is_space c \<Longrightarrow> \<not> is_unitch c"
  by (auto simp: is_space_def is_unitch_def is_letter_def Let_def)

lemma dropWhile_keeps_last:
  "xs \<noteq> [] \<Longrightarrow> \<not> P (last xs) \<Longrightarrow> dropWhile P xs \<noteq> [] \<and> last (dropWhile P xs) = last xs"
  by (induction xs) (auto split: if_splits)

lemma takeWhile_stops_before_last:
  "xs \<noteq> [] \<Longrightarrow> \<not> P (last xs) \<Longrightarrow> takeWhile P (xs @ ys) = takeWhile P xs"
  by (rule takeWhile_append1 [of "last xs"]) simp_all

lemma dropWhile_stops_before_last:
  "xs \<noteq> [] \<Longrightarrow> \<not> P (last xs) \<Longrightarrow> dropWhile P (xs @ ys) = dropWhile P xs @ ys"
  by (rule dropWhile_append1 [of "last xs"]) simp_all

text \<open>
  A match of the common tail cannot reach over a white-space character that is followed
  by a character which is neither white space nor a unit character: a text that ends in
  white space can be cut off there.
\<close>

lemma num_unit_append:
  assumes s: "s \<noteq> []" and l: "is_space (last s)"
    and ys: "ys = [] \<or> (\<not> is_space (hd ys) \<and> \<not> is_unitch (hd ys))"
  shows "num_unit (s @ ys) = (case num_unit s of None \<Rightarrow> None
                              | Some (g, rest) \<Rightarrow> Some (g, rest @ ys))"
    and "num_unit s = Some (g, rest) \<Longrightarrow> rest \<noteq> [] \<and> last rest = last s"
proof -
  let ?r = "dropWhile is_numch s"
  from l have nn: "\<not> is_numch (last s)" and nu: "\<not> is_unitch (last s)"
    by (simp_all add: space_not_numch space_not_unitch)
  have tn: "takeWhile is_numch (s @ ys) = takeWhile is_numch s"
    and dn: "dropWhile is_numch (s @ ys) = ?r @ ys"
    using s nn by (simp_all add: takeWhile_stops_before_last dropWhile_stops_before_last)
  from dropWhile_keeps_last [of s is_numch, OF s nn] have r: "?r \<noteq> []" "last ?r = last s" by simp_all
  have ys0: "dropWhile is_space ys = ys" and ys1: "takeWhile is_unitch ys = []"
    using ys by (cases ys; simp)+
  show "num_unit (s @ ys) = (case num_unit s of None \<Rightarrow> None
                              | Some (g, rest) \<Rightarrow> Some (g, rest @ ys))"
  proof (cases "dropWhile is_space ?r = []")
    case True
    then have "\<forall>x\<in>set ?r. is_space x" by simp
    then have e: "dropWhile is_space (?r @ ys) = ys"
      by (simp add: ys0)
    have a: "num_unit (s @ ys) = None"
      unfolding num_unit_def Let_def tn dn e ys1 by simp
    have b: "num_unit s = None"
      unfolding num_unit_def Let_def True by simp
    show ?thesis by (simp add: a b)
  next
    case False
    let ?r' = "dropWhile is_space ?r"
    from False obtain x where "x \<in> set ?r" "\<not> is_space x"
      by auto
    then have ds: "dropWhile is_space (?r @ ys) = ?r' @ ys"
      by (rule dropWhile_append1)
    have "last ?r' = last ?r"
      by (metis False last_appendR takeWhile_dropWhile_id)
    with r nu have "\<not> is_unitch (last ?r')" by simp
    with False have "takeWhile is_unitch (?r' @ ys) = takeWhile is_unitch ?r'"
      and "dropWhile is_unitch (?r' @ ys) = dropWhile is_unitch ?r' @ ys"
      by (simp_all add: takeWhile_stops_before_last dropWhile_stops_before_last)
    with tn dn ds show ?thesis by (simp add: num_unit_def Let_def)
  qed
  show "rest \<noteq> [] \<and> last rest = last s" if m: "num_unit s = Some (g, rest)"
  proof -
    let ?r' = "dropWhile is_space ?r"
    from m have rest: "rest = dropWhile is_unitch ?r'" and u: "takeWhile is_unitch ?r' \<noteq> []"
      by (auto simp: num_unit_def Let_def split: if_splits)
    from u have ne: "?r' \<noteq> []" by (metis takeWhile.simps(1))
    then have "last ?r' = last ?r"
      by (metis last_appendR takeWhile_dropWhile_id)
    with r nu have "\<not> is_unitch (last ?r')" by simp
    from dropWhile_keeps_last [of ?r' is_unitch, OF ne this] r \<open>last ?r' = last ?r\<close> rest
    show ?thesis by simp
  qed
qed

lemma findall_append:
  assumes ys: "ys = [] \<or> (\<not> is_space (hd ys) \<and> \<not> is_unitch (hd ys))"
  shows "s = [] \<or> is_space (last s) \<Longrightarrow> findall (s @ ys) = findall s @ findall ys"
proof (induction s rule: findall.induct)
  case 1
  show ?case by simp
next
  case (2 c cs)
  then have l: "is_space (last (c # cs))" by simp
  have ne: "c # cs \<noteq> []" by simp
  note app = num_unit_append [OF ne l ys]
  show ?case
  proof (cases "num_unit (c # cs)")
    case None
    with app(1) have n: "num_unit (c # cs @ ys) = None" by simp
    from l have "cs = [] \<or> is_space (last cs)" by (cases cs) simp_all
    with "2.IH"(1) [OF None] have "findall (cs @ ys) = findall cs @ findall ys" .
    with None n show ?thesis by simp
  next
    case (Some m)
    obtain g rest where m: "m = (g, rest)" by (cases m)
    with Some app(1) have n: "num_unit (c # cs @ ys) = Some (g, rest @ ys)" by simp
    from app(2) [of g rest] Some m l have "rest = [] \<or> is_space (last rest)" by simp
    with "2.IH"(2) [OF Some m [symmetric]] have "findall (rest @ ys) = findall rest @ findall ys" .
    with Some m n show ?thesis by simp
  qed
qed

lemma findall_needle:
  "findall (pre @ ''the needle points to 66 ml.'')
     = findall (pre @ ''the needle points to '') @ [(''66'', ''ml'')]"
proof -
  have ys: "''66 ml.'' = [] \<or> (\<not> is_space (hd ''66 ml.'') \<and> \<not> is_unitch (hd ''66 ml.''))"
    by code_simp
  have sp: "is_space (last (pre @ ''the needle points to ''))"
    by (simp add: is_space_def)
  have tail: "findall ''66 ml.'' = [(''66'', ''ml'')]"
    by code_simp
  have "pre @ ''the needle points to 66 ml.'' = (pre @ ''the needle points to '') @ ''66 ml.''"
    by simp
  then have "findall (pre @ ''the needle points to 66 ml.'')
               = findall ((pre @ ''the needle points to '') @ ''66 ml.'')"
    by (rule arg_cong)
  also from sp have "\<dots> = findall (pre @ ''the needle points to '') @ findall ''66 ml.''"
    by (intro findall_append [OF ys]) simp
  finally show ?thesis by (simp only: tail)
qed


text \<open>
  C6, as stated: when none of the three marker rules matches, the extractor returns the
  last number-unit pair of the text. In \<open>The gauge reads 66 ml. Done\<close> no marker rule
  matches; the class \<open>[0-9.]\<close> matches the full stop alone, so the last pair that
  \<open>findall\<close> finds is the full stop with \<open>Done\<close>, \<open>float\<close> raises \<open>ValueError\<close> on it
  and nothing is returned.
\<close>

theorem fallback_counterexample:
  "search match1 ''The gauge reads 66 ml. Done'' = None
   \<and> search match2 ''The gauge reads 66 ml. Done'' = None
   \<and> search match3 ''The gauge reads 66 ml. Done'' = None
   \<and> findall ''The gauge reads 66 ml. Done'' = [(''66'', ''ml''), (''.'', ''Done'')]
   \<and> parse_answer (Some ''The gauge reads 66 ml. Done'') = Inl ValueError"
  by code_simp

text \<open>
  C6, amended: for every text in which none of the three marker rules matches, the
  extractor scans the whole text for number-unit pairs and takes the last one: it
  returns that pair when its numeric span parses as a float, and the empty answer when
  there is no pair. A text that ends in \<open>the needle points to 66 ml.\<close> has \<open>66 ml\<close> as
  its last pair, whatever pairs stand before it, and yields the value 66 and the unit
  \<open>ml\<close>.
\<close>

theorem fallback_last_pair:
  "search match1 t = None \<and> search match2 t = None \<and> search match3 t = None \<longrightarrow>
     (findall t = [] \<longrightarrow> parse_answer (Some t) = Inr no_answer)
     \<and> (findall t \<noteq> [] \<and> float_span (fst (last (findall t))) = Some v \<longrightarrow>
          parse_answer (Some t)
            = Inr \<lparr>ans_value = Some v, ans_unit = Some (snd (last (findall t))),
                   raw_answer = Some (fst (last (findall t)) @ '' '' @ snd (last (findall t)))\<rparr>)
     \<and> (t = pre @ ''the needle points to 66 ml.'' \<longrightarrow>
          last (findall t) = (''66'', ''ml'')
          \<and> parse_answer (Some t)
              = Inr \<lparr>ans_value = Some 66, ans_unit = Some ''ml'', raw_answer = Some ''66 ml''\<rparr>)"
proof (intro impI conjI)
  assume none: "search match1 t = None \<and> search match2 t = None \<and> search match3 t = None"
  then have p: "parse_answer (Some t) = (if findall t = [] then Inr no_answer
                                          else build_answer (last (findall t)))"
    by (simp add: parse_answer_rule4 del: parse_answer.simps)
  {
    assume "findall t = []"
    with p show "parse_answer (Some t) = Inr no_answer" by simp
  }
  {
    assume "findall t \<noteq> [] \<and> float_span (fst (last (findall t))) = Some v"
    with p show "parse_answer (Some t)
            = Inr \<lparr>ans_value = Some v, ans_unit = Some (snd (last (findall t))),
                   raw_answer = Some (fst (last (findall t)) @ '' '' @ snd (last (findall t)))\<rparr>"
      by (simp add: build_answer_def)
  }
  {
    assume t: "t = pre @ ''the needle points to 66 ml.''"
    have f: "findall t = findall (pre @ ''the needle points to '') @ [(''66'', ''ml'')]"
      unfolding t by (rule findall_needle)
    then show l: "last (findall t) = (''66'', ''ml'')" by simp
    from f have "findall t \<noteq> []" by simp
    with p l have "parse_answer (Some t) = build_answer (''66'', ''ml'')" by simp
    also have "\<dots> = Inr \<lparr>ans_value = Some 66, ans_unit = Some ''ml'',
                            raw_answer = Some ''66 ml''\<rparr>"
      by code_simp
    finally show "parse_answer (Some t)
              = Inr \<lparr>ans_value = Some 66, ans_unit = Some ''ml'', raw_answer = Some ''66 ml''\<rparr>" .
  }
qed

theorem fallback_last_pair_witness:
  "search match1 (''The scale is 0-100 ml. '' @ ''the needle points to 66 ml.'') = None
   \<and> search match2 (''The scale is 0-100 ml. '' @ ''the needle points to 66 ml.'') = None
   \<and> search match3 (''The scale is 0-100 ml. '' @ ''the needle points to 66 ml.'') = None
   \<and> findall (''The scale is 0-100 ml. '' @ ''the needle points to 66 ml.'')
       = [(''100'', ''ml''), (''.'', ''the''), (''66'', ''ml'')]
   \<and> float_span ''66'' = Some 66
   \<and> parse_answer (Some (''The scale is 0-100 ml. '' @ ''the needle points to 66 ml.''))
       = Inr \<lparr>ans_value = Some 66, ans_unit = Some ''ml'', raw_answer = Some ''66 ml''\<rparr>"
proof -
  let ?t = "''The scale is 0-100 ml. '' @ ''the needle points to 66 ml.''"
  have none: "search match1 ?t = None \<and> search match2 ?t = None \<and> search match3 ?t = None"
    by code_simp
  have pairs: "findall ?t = [(''100'', ''ml''), (''.'', ''the''), (''66'', ''ml'')]"
    by code_simp
  have fl: "float_span ''66'' = Some 66"
    by code_simp
  from fallback_last_pair [of ?t 66 "''The scale is 0-100 ml. ''"] none
  have "parse_answer (Some ?t)
       = Inr \<lparr>ans_value = Some 66, ans_unit = Some ''ml'', raw_answer = Some ''66 ml''\<rparr>"
    by blast
  with none pairs fl show ?thesis by blast
qed

section \<open>Resuming a run\<close>

lemma run_loop_all_skipped:
  "\<forall>item\<in>set items. item_question_id item \<in> skip
   \<Longrightarrow> run_loop producer stem shell dataset skip i items s = s"
  by (induction items arbitrary: i) (simp_all add: Let_def)

lemma run_loop_step:
  assumes "item_question_id item \<notin> skip"
  shows "run_loop producer stem shell dataset skip i (item # items) s =
           (let result = child_process shell stem dataset (item_question_id item) (producer i)
                           (output_file s);
                s' = s\<lparr>output_file := file_after result,
                       launched := launched s @ [item_question_id item],
                       produced := (if invoked result then produced s @ [item_question_id item]
                                    else produced s),
                       writes := (if wrote result then writes s + 1 else writes s)\<rparr>
            in if status result \<noteq> 0 then s'\<lparr>halted := True\<rparr>
               else run_loop producer stem shell dataset skip (i + 1) items s')"
  using assms by (simp only: run_loop.simps Let_def if_False)

lemma run_loop_only_unprocessed:
  "set (launched (run_loop producer stem shell dataset skip i items s)) \<subseteq> set (launched s) \<union> - skip
   \<and> set (produced (run_loop producer stem shell dataset skip i items s)) \<subseteq> set (produced s) \<union> - skip"
proof (induction items arbitrary: i s)
  case Nil
  show ?case by simp
next
  case (Cons item items)
  show ?case
  proof (cases "item_question_id item \<in> skip")
    case True
    with Cons.IH [of "i + 1" s] show ?thesis by (simp add: Let_def)
  next
    case False
    define r where "r = child_process shell stem dataset (item_question_id item) (producer i) (output_file s)"
    define s' where "s' = s\<lparr>output_file := file_after r,
                  launched := launched s @ [item_question_id item],
                  produced := (if invoked r then produced s @ [item_question_id item]
                               else produced s),
                  writes := (if wrote r then writes s + 1 else writes s)\<rparr>"
    have l: "set (launched s') \<subseteq> set (launched s) \<union> - skip"
      and p: "set (produced s') \<subseteq> set (produced s) \<union> - skip"
      using False by (auto simp: s'_def)
    have step: "run_loop producer stem shell dataset skip i (item # items) s =
                  (if status r \<noteq> 0 then s'\<lparr>halted := True\<rparr>
                   else run_loop producer stem shell dataset skip (i + 1) items s')"
      unfolding run_loop_step [OF False] r_def s'_def Let_def ..
    show ?thesis
    proof (cases "status r \<noteq> 0")
      case True
      with step l p show ?thesis by simp
    next
      case False
      with step have "run_loop producer stem shell dataset skip i (item # items) s
                        = run_loop producer stem shell dataset skip (i + 1) items s'" by simp
      with Cons.IH [of "i + 1" s'] l p show ?thesis by auto
    qed
  qed
qed

lemma processed_ids_update:
  "processed_ids (Some (update_or_append r f)) = insert (question_id r) (processed_ids f)"
proof (cases f)
  case None
  then show ?thesis by (simp add: processed_ids_def update_or_append_def)
next
  case (Some ps)
  have "set (map question_id (update_or_append r (Some ps)))
          = insert (question_id r) (set (map question_id ps))"
    unfolding update_or_append_ids by auto
  with Some show ?thesis by (simp add: processed_ids_def)
qed

lemma find_image_present:
  assumes "item \<in> set dataset" and "item_question_id item \<noteq> []"
  shows "\<exists>found. find_image_in_dataset dataset (item_question_id item) = Some found
               \<and> found \<in> set dataset \<and> item_question_id found = item_question_id item"
proof -
  from assms(1) have "find (\<lambda>it. item_question_id it = item_question_id item) dataset \<noteq> None"
    by (auto simp: find_None_iff)
  then obtain found where f: "find (\<lambda>it. item_question_id it = item_question_id item) dataset = Some found"
    by auto
  then have "found \<in> set dataset \<and> item_question_id found = item_question_id item"
    by (auto simp: find_Some_iff)
  with f assms(2) show ?thesis by (simp add: find_image_in_dataset_def)
qed

lemma process_single_stores:
  assumes "stores (Ran outcome)"
  shows "\<exists>r. process_single stem path q t outcome = Some r \<and> question_id r = stem path"
  using assms
  by (auto simp: stores_def process_single_def split: vlm_outcome.splits option.splits sum.splits)

lemma main_stores:
  assumes st: "stores att"
    and found: "find_image_in_dataset dataset a = Some item"
  shows "status (main stem dataset a att f) = 0
         \<and> processed_ids (file_after (main stem dataset a att f))
             = insert (stem (image_path item)) (processed_ids f)"
proof (cases att)
  case Crash
  with st show ?thesis by (simp add: stores_def)
next
  case (Ran outcome)
  with st have "stores (Ran outcome)" by simp
  from process_single_stores [OF this]
  obtain r where r: "process_single stem (image_path item) (item_question item)
           (Some (case item_image_type item of None \<Rightarrow> ''Unknown'' | Some t \<Rightarrow> t)) outcome = Some r"
    and id: "question_id r = stem (image_path item)"
    by blast
  from Ran found r id show ?thesis
    by (simp add: main_def Let_def processed_ids_update)
qed

text \<open>
  A run in which every started child stores its entry does not halt, loses no identifier
  of the collection and ends with the identifier of every item in it.
\<close>

lemma run_loop_complete:
  assumes ok: "\<forall>item\<in>set dataset. item_question_id item \<noteq> []
                 \<and> shell (item_question_id item) = Some (item_question_id item)
                 \<and> stem (image_path item) = item_question_id item"
    and prod: "\<forall>i<length dataset. item_question_id (dataset ! i) \<notin> skip \<longrightarrow> stores (producer i)"
  shows "drop i dataset = items \<Longrightarrow> skip \<subseteq> processed_ids (output_file s) \<Longrightarrow> \<not> halted s
         \<Longrightarrow> \<not> halted (run_loop producer stem shell dataset skip i items s)
             \<and> item_question_id ` set items \<union> processed_ids (output_file s)
                 \<subseteq> processed_ids (output_file (run_loop producer stem shell dataset skip i items s))"
proof (induction items arbitrary: i s)
  case Nil
  then show ?case by simp
next
  case (Cons item items)
  from Cons.prems(1) have i: "i < length dataset"
    by (metis drop_all list.distinct(1) not_le)
  with Cons.prems(1) have at: "dataset ! i = item" and rest: "drop (i + 1) dataset = items"
    by (metis Cons_nth_drop_Suc list.inject, metis Cons_nth_drop_Suc Suc_eq_plus1 list.inject)
  from i at have mem: "item \<in> set dataset" by (metis nth_mem)
  show ?case
  proof (cases "item_question_id item \<in> skip")
    case True
    with Cons.IH [OF rest Cons.prems(2,3)] Cons.prems(2) show ?thesis
      by (auto simp: Let_def)
  next
    case False
    define r where "r = child_process shell stem dataset (item_question_id item) (producer i) (output_file s)"
    define s' where "s' = s\<lparr>output_file := file_after r,
                  launched := launched s @ [item_question_id item],
                  produced := (if invoked r then produced s @ [item_question_id item]
                               else produced s),
                  writes := (if wrote r then writes s + 1 else writes s)\<rparr>"
    have step: "run_loop producer stem shell dataset skip i (item # items) s =
                  (if status r \<noteq> 0 then s'\<lparr>halted := True\<rparr>
                   else run_loop producer stem shell dataset skip (i + 1) items s')"
      unfolding run_loop_step [OF False] r_def s'_def Let_def ..
    from ok mem have item: "item_question_id item \<noteq> []"
      "shell (item_question_id item) = Some (item_question_id item)" by auto
    from find_image_present [OF mem item(1)] obtain found where
      found: "find_image_in_dataset dataset (item_question_id item) = Some found"
      and fmem: "found \<in> set dataset" and fid: "item_question_id found = item_question_id item"
      by blast
    from ok fmem fid have stem_found: "stem (image_path found) = item_question_id item" by auto
    from prod i at False have "stores (producer i)" by auto
    from main_stores [OF this found, of stem "output_file s"] item(2) stem_found
    have st: "status r = 0"
      and ids: "processed_ids (file_after r) = insert (item_question_id item) (processed_ids (output_file s))"
      by (simp_all add: r_def child_process_def)
    from ids have out: "processed_ids (output_file s')
                          = insert (item_question_id item) (processed_ids (output_file s))"
      by (simp add: s'_def)
    with Cons.prems(2) have sub: "skip \<subseteq> processed_ids (output_file s')" by auto
    from Cons.prems(3) have nh: "\<not> halted s'" by (simp add: s'_def)
    from st step have "run_loop producer stem shell dataset skip i (item # items) s
                         = run_loop producer stem shell dataset skip (i + 1) items s'" by simp
    with Cons.IH [OF rest sub nh] out show ?thesis by auto
  qed
qed


text \<open>
  C3, as stated: a second run over the same dataset with the same storage location
  processes zero items. A first run does not store every item. When \<open>parse_answer\<close>
  raises on the text of the producer, \<open>process_single\<close> returns \<open>None\<close>, the child ends
  with status 0 without writing, and the run goes on and ends without halting: after the
  first run over \<open>[q1]\<close> the file is still absent. The second run, from that absent
  file, starts the child for \<open>q1\<close> again and stores what the producer answers then.
\<close>

theorem second_run_counterexample:
  "run_evaluation (\<lambda>i. Ran (Returned (Some ''The gauge reads 66 ml. Done''))) posix_stem Some
       [q_item ''q1''] None
     = \<lparr>output_file = None, launched = [''q1''], produced = [''q1''],
        writes = 0, halted = False\<rparr>
   \<and> run_evaluation (\<lambda>i. Ran (Returned (Some ''Answer: 4.4 A''))) posix_stem Some
       [q_item ''q1''] None
     = \<lparr>output_file = Some [q_record ''q1''], launched = [''q1''], produced = [''q1''],
        writes = 1, halted = False\<rparr>"
  by code_simp

text \<open>
  C3, amended: an item whose identifier is in the collection loaded at the start is
  skipped: no child process is started for it and the producer is not called for it;
  when every item of the dataset is in the loaded collection, the run starts nothing,
  writes nothing and leaves the collection as it was. After a first run in which every
  started child stored its entry (for each item the identifier is not empty and is
  passed unchanged by the command line, the stem of the image is the identifier, and the
  producer returned no text or a text that \<open>parse_answer\<close> accepts), the first run has
  not halted, every identifier of the dataset is in the collection it leaves, and a
  second run over the same dataset from that collection, whatever the producer would do,
  processes zero items and ends with the collection the first run left.
\<close>

theorem second_run_processes_nothing:
  "(\<forall>item\<in>set dataset. item_question_id item \<in> processed_ids f \<longrightarrow>
       item_question_id item \<notin> set (launched (run_evaluation producer stem shell dataset f))
     \<and> item_question_id item \<notin> set (produced (run_evaluation producer stem shell dataset f)))
   \<and> ((\<forall>item\<in>set dataset. item_question_id item \<in> processed_ids f) \<longrightarrow>
        run_evaluation producer stem shell dataset f
          = \<lparr>output_file = f, launched = [], produced = [], writes = 0, halted = False\<rparr>)
   \<and> ((\<forall>item\<in>set dataset. item_question_id item \<noteq> []
            \<and> shell (item_question_id item) = Some (item_question_id item)
            \<and> stem (image_path item) = item_question_id item)
        \<and> (\<forall>i<length dataset. item_question_id (dataset ! i) \<notin> processed_ids f
                                \<longrightarrow> stores (producer i))
       \<longrightarrow> \<not> halted (run_evaluation producer stem shell dataset f)
           \<and> (\<forall>item\<in>set dataset. item_question_id item
                  \<in> processed_ids (output_file (run_evaluation producer stem shell dataset f)))
           \<and> run_evaluation producer2 stem shell dataset
                 (output_file (run_evaluation producer stem shell dataset f))
               = \<lparr>output_file = output_file (run_evaluation producer stem shell dataset f),
                  launched = [], produced = [], writes = 0, halted = False\<rparr>)"
proof -
  let ?s0 = "\<lambda>f. \<lparr>output_file = f, launched = [], produced = [], writes = 0, halted = False\<rparr>"
  have skipped: "item_question_id item \<notin> set (launched (run_evaluation producer stem shell dataset f))
                 \<and> item_question_id item \<notin> set (produced (run_evaluation producer stem shell dataset f))"
    if "item_question_id item \<in> processed_ids f" for item :: dataset_item
    using that run_loop_only_unprocessed [of producer stem shell dataset "processed_ids f" 0 dataset "?s0 f"]
    by (auto simp: run_evaluation_def)
  have noop: "run_evaluation p stem shell dataset g = ?s0 g"
    if "\<forall>item\<in>set dataset. item_question_id item \<in> processed_ids g" for p g
    using that by (simp add: run_evaluation_def run_loop_all_skipped)
  have complete: "\<not> halted (run_evaluation producer stem shell dataset f)
           \<and> (\<forall>item\<in>set dataset. item_question_id item
                  \<in> processed_ids (output_file (run_evaluation producer stem shell dataset f)))
           \<and> run_evaluation producer2 stem shell dataset
                 (output_file (run_evaluation producer stem shell dataset f))
               = ?s0 (output_file (run_evaluation producer stem shell dataset f))"
    if ok: "\<forall>item\<in>set dataset. item_question_id item \<noteq> []
            \<and> shell (item_question_id item) = Some (item_question_id item)
            \<and> stem (image_path item) = item_question_id item"
      and prod: "\<forall>i<length dataset. item_question_id (dataset ! i) \<notin> processed_ids f
                                \<longrightarrow> stores (producer i)"
  proof -
    from run_loop_complete [OF ok prod, of 0 dataset "?s0 f"]
    have nh: "\<not> halted (run_evaluation producer stem shell dataset f)"
      and all: "item_question_id ` set dataset
                  \<subseteq> processed_ids (output_file (run_evaluation producer stem shell dataset f))"
      by (simp_all add: run_evaluation_def)
    from all have present: "\<forall>item\<in>set dataset. item_question_id item
                  \<in> processed_ids (output_file (run_evaluation producer stem shell dataset f))"
      by auto
    from noop [OF present] nh present show ?thesis by blast
  qed
  from skipped noop complete show ?thesis by blast
qed

text \<open>
  The resume scenario: the collection holds \<open>q1\<close>; a first run over \<open>[q1, q2]\<close> skips
  \<open>q1\<close>, adds \<open>q2\<close> and leaves the entry of \<open>q1\<close> as it was; a second run over the same
  dataset does nothing, whatever the producer would do.
\<close>

theorem second_run_processes_nothing_witness:
  "list_all (\<lambda>item. item_question_id item \<noteq> []
                    \<and> posix_stem (image_path item) = item_question_id item)
            [q_item ''q1'', q_item ''q2'']
   \<and> stores (Ran (Returned (Some ''Answer: 4.4 A'')))
   \<and> run_evaluation (\<lambda>i. Ran (Returned (Some ''Answer: 4.4 A''))) posix_stem Some
         [q_item ''q1'', q_item ''q2''] (Some [q1_rerun])
       = \<lparr>output_file = Some [q1_rerun, q_record ''q2''], launched = [''q2''],
          produced = [''q2''], writes = 1, halted = False\<rparr>
   \<and> run_evaluation (\<lambda>i. Ran Raised) posix_stem Some [q_item ''q1'', q_item ''q2'']
         (Some [q1_rerun, q_record ''q2''])
       = \<lparr>output_file = Some [q1_rerun, q_record ''q2''], launched = [], produced = [],
          writes = 0, halted = False\<rparr>"
proof -
  let ?ds = "[q_item ''q1'', q_item ''q2'']"
  let ?p = "\<lambda>i::nat. Ran (Returned (Some ''Answer: 4.4 A''))"
  have items: "list_all (\<lambda>item. item_question_id item \<noteq> []
                    \<and> posix_stem (image_path item) = item_question_id item) ?ds"
    by code_simp
  have st: "stores (Ran (Returned (Some ''Answer: 4.4 A'')))"
    by code_simp
  have first: "run_evaluation ?p posix_stem Some ?ds (Some [q1_rerun])
       = \<lparr>output_file = Some [q1_rerun, q_record ''q2''], launched = [''q2''],
          produced = [''q2''], writes = 1, halted = False\<rparr>"
    by code_simp
  from items have ok: "\<forall>item\<in>set ?ds. item_question_id item \<noteq> []
            \<and> Some (item_question_id item) = Some (item_question_id item)
            \<and> posix_stem (image_path item) = item_question_id item"
    by (simp add: list_all_iff)
  from st have prod: "\<forall>i<length ?ds. item_question_id (?ds ! i) \<notin> processed_ids (Some [q1_rerun])
                                \<longrightarrow> stores (?p i)"
    by simp
  from second_run_processes_nothing [of ?ds "Some [q1_rerun]" ?p posix_stem Some "\<lambda>i. Ran Raised"]
    ok prod
  have "run_evaluation (\<lambda>i. Ran Raised) posix_stem Some ?ds
          (output_file (run_evaluation ?p posix_stem Some ?ds (Some [q1_rerun])))
        = \<lparr>output_file = output_file (run_evaluation ?p posix_stem Some ?ds (Some [q1_rerun])),
           launched = [], produced = [], writes = 0, halted = False\<rparr>"
    by blast
  then have "run_evaluation (\<lambda>i. Ran Raised) posix_stem Some ?ds (Some [q1_rerun, q_record ''q2''])
       = \<lparr>output_file = Some [q1_rerun, q_record ''q2''], launched = [], produced = [],
          writes = 0, halted = False\<rparr>"
    by (simp add: first)
  with items st first show ?thesis by blast
qed


section \<open>Resuming keeps the loaded entries\<close>

lemma existing_idx_append:
  "q \<notin> question_id ` set ps
   \<Longrightarrow> existing_idx q (ps @ new) = (case existing_idx q new of None \<Rightarrow> None
                                     | Some j \<Rightarrow> Some (length ps + j))"
  by (induction ps) (auto split: option.splits)

lemma update_or_append_keeps:
  assumes "question_id r \<notin> question_id ` set ps"
  shows "\<exists>new'. update_or_append r (Some (ps @ new)) = ps @ new'"
proof (cases "existing_idx (question_id r) new")
  case None
  with assms show ?thesis
    by (simp add: update_or_append_def existing_idx_append)
next
  case (Some j)
  with assms show ?thesis
    by (simp add: update_or_append_def existing_idx_append list_update_append)
qed

lemma process_single_id:
  "process_single stem path q t outcome = Some r \<Longrightarrow> question_id r = stem path"
  by (auto simp: process_single_def split: vlm_outcome.splits option.splits sum.splits)

lemma main_keeps:
  assumes stem: "\<forall>item\<in>set dataset. stem (image_path item) = item_question_id item"
    and fresh: "image_id \<notin> question_id ` set ps"
  shows "\<exists>new'. file_after (main stem dataset image_id att (Some (ps @ new))) = Some (ps @ new')"
proof (cases "find_image_in_dataset dataset image_id")
  case None
  then show ?thesis by (simp add: main_def)
next
  case (Some item)
  then have item: "item \<in> set dataset" "item_question_id item = image_id"
    by (auto simp: find_image_in_dataset_def find_Some_iff split: if_splits)
  show ?thesis
  proof (cases att)
    case Crash
    with Some show ?thesis by (simp add: main_def)
  next
    case (Ran outcome)
    let ?p = "process_single stem (image_path item) (item_question item)
                (Some (case item_image_type item of None \<Rightarrow> ''Unknown'' | Some t \<Rightarrow> t)) outcome"
    show ?thesis
    proof (cases ?p)
      case None
      with Some Ran show ?thesis by (simp add: main_def)
    next
      case (Some r)
      from process_single_id [OF Some] stem item have "question_id r = image_id" by auto
      with fresh have "question_id (r\<lparr>ground_truth := g\<rparr>) \<notin> question_id ` set ps" for g
        by simp
      from update_or_append_keeps [OF this]
      show ?thesis using Some Ran \<open>find_image_in_dataset dataset image_id = Some item\<close>
        by (simp add: main_def Let_def)
    qed
  qed
qed

lemma child_process_keeps:
  assumes stem: "\<forall>item\<in>set dataset. stem (image_path item) = item_question_id item"
    and shell: "shell image_id = None \<or> shell image_id = Some image_id"
    and fresh: "image_id \<notin> question_id ` set ps"
  shows "\<exists>new'. file_after (child_process shell stem dataset image_id att (Some (ps @ new)))
                 = Some (ps @ new')"
proof (cases "shell image_id")
  case None
  then show ?thesis by (simp add: child_process_def)
next
  case (Some a)
  with shell have "a = image_id" by simp
  with Some main_keeps [OF stem fresh, of att new] show ?thesis
    by (simp add: child_process_def)
qed

lemma run_loop_keeps:
  assumes stem: "\<forall>item\<in>set dataset. stem (image_path item) = item_question_id item"
    and shell: "\<forall>item\<in>set items. shell (item_question_id item) = None
                  \<or> shell (item_question_id item) = Some (item_question_id item)"
  shows "output_file s = Some (ps @ new)
         \<Longrightarrow> \<exists>new'. output_file (run_loop producer stem shell dataset (question_id ` set ps) i items s)
                      = Some (ps @ new')"
  using shell
proof (induction items arbitrary: i s new)
  case Nil
  then show ?case by simp
next
  case (Cons item items)
  from Cons.prems(2) have sh: "shell (item_question_id item) = None
                  \<or> shell (item_question_id item) = Some (item_question_id item)"
    and shs: "\<forall>item\<in>set items. shell (item_question_id item) = None
                  \<or> shell (item_question_id item) = Some (item_question_id item)"
    by simp_all
  show ?case
  proof (cases "item_question_id item \<in> question_id ` set ps")
    case True
    with Cons.IH [OF Cons.prems(1) shs, of "i + 1"] show ?thesis by (simp add: Let_def)
  next
    case False
    define r where "r = child_process shell stem dataset (item_question_id item) (producer i)
                          (output_file s)"
    define s' where "s' = s\<lparr>output_file := file_after r,
                  launched := launched s @ [item_question_id item],
                  produced := (if invoked r then produced s @ [item_question_id item]
                               else produced s),
                  writes := (if wrote r then writes s + 1 else writes s)\<rparr>"
    from child_process_keeps [of dataset stem shell "item_question_id item" ps "producer i" new,
           OF stem sh False] Cons.prems(1)
    obtain new' where "file_after r = Some (ps @ new')" by (auto simp: r_def)
    then have out: "output_file s' = Some (ps @ new')" by (simp add: s'_def)
    have step: "run_loop producer stem shell dataset (question_id ` set ps) i (item # items) s =
                  (if status r \<noteq> 0 then s'\<lparr>halted := True\<rparr>
                   else run_loop producer stem shell dataset (question_id ` set ps) (i + 1) items s')"
      unfolding run_loop_step [OF False] r_def s'_def Let_def ..
    show ?thesis
    proof (cases "status r \<noteq> 0")
      case True
      with step out show ?thesis by simp
    next
      case False
      with step Cons.IH [OF out shs, of "i + 1"] show ?thesis by simp
    qed
  qed
qed

text \<open>
  When every item of the dataset has an image whose stem is its \<open>question_id\<close>, and the
  command line passes each identifier unchanged or fails, a run leaves the entries of
  the loaded collection where they were and as they were: what it stores comes after
  them.
\<close>

lemma resume_keeps_loaded_entries:
  assumes "\<forall>item\<in>set dataset. stem (image_path item) = item_question_id item"
    and "\<forall>item\<in>set dataset. shell (item_question_id item) = None
           \<or> shell (item_question_id item) = Some (item_question_id item)"
  shows "\<exists>new. output_file (run_evaluation producer stem shell dataset (Some ps)) = Some (ps @ new)"
  using run_loop_keeps [OF assms, of _ ps "[]"]
  by (simp add: run_evaluation_def processed_ids_def)

end
